theory Spec2Isabelle
  imports Main "HOL-Library.Sublist" "HOL-Library.Multiset"
begin

section \<open>Strings and numbers of the scripts\<close>

text \<open>
  The build scripts are TypeScript. Their strings are modelled as HOL strings (lists of
  8-bit characters), their section numbers and list positions as natural numbers.
  \<open>show_nat\<close> is the decimal rendering that a template literal \<^verbatim>\<open>`${n}`\<close> gives for a
  non-negative integer \<open>n\<close> (below \<open>10^21\<close>, where JavaScript switches to exponent notation).
\<close>

definition digit :: "nat \<Rightarrow> char" where
  "digit d = ''0123456789'' ! d"

fun show_nat :: "nat \<Rightarrow> string" where
  "show_nat n = (if n < 10 then [digit n] else show_nat (n div 10) @ [digit (n mod 10)])"

declare show_nat.simps [simp del]

text \<open>
  JavaScript truthiness of an optional string: \<^verbatim>\<open>undefined\<close> and the empty string are falsy.
  \<open>or_else\<close> is \<^verbatim>\<open>x || d\<close> on such a value.
\<close>

fun truthy :: "string option \<Rightarrow> bool" where
  "truthy None = False"
| "truthy (Some s) = (s \<noteq> [])"

definition or_else :: "string option \<Rightarrow> string \<Rightarrow> string" where
  "or_else x d = (case x of None \<Rightarrow> d | Some s \<Rightarrow> (if s = [] then d else s))"

text \<open>
  Characters by their code: ASCII letters change case, the others stay (a character outside
  ASCII never becomes an ASCII letter under either conversion of the scripts' patterns).
  \<open>is_space\<close> is the class \<^verbatim>\<open>\s\<close> of a regular expression, which is also what \<^verbatim>\<open>trim\<close> strips,
  within 8-bit codes: tab, line feed, vertical tab, form feed, carriage return, space, no-break space.
\<close>

definition NL :: char where
  "NL = CHR 10"

definition to_lower :: "char \<Rightarrow> char" where
  "to_lower c = (case map_of (zip ''ABCDEFGHIJKLMNOPQRSTUVWXYZ'' ''abcdefghijklmnopqrstuvwxyz'') c of
                   Some l \<Rightarrow> l | None \<Rightarrow> c)"

definition to_upper :: "char \<Rightarrow> char" where
  "to_upper c = (case map_of (zip ''abcdefghijklmnopqrstuvwxyz'' ''ABCDEFGHIJKLMNOPQRSTUVWXYZ'') c of
                   Some u \<Rightarrow> u | None \<Rightarrow> c)"

definition toLowerCase :: "string \<Rightarrow> string" where
  "toLowerCase s = map to_lower s"

definition is_space :: "char \<Rightarrow> bool" where
  "is_space c = (c \<in> set [CHR 9, CHR 10, CHR 11, CHR 12, CHR 13, CHR 32, CHR 160])"

definition is_word :: "char \<Rightarrow> bool" where
  "is_word c = (c \<in> set ''abcdefghijklmnopqrstuvwxyzABCDEFGHIJKLMNOPQRSTUVWXYZ0123456789_'')"

definition trim :: "string \<Rightarrow> string" where
  "trim s = rev (dropWhile is_space (rev (dropWhile is_space s)))"

definition startsWith :: "string \<Rightarrow> string \<Rightarrow> bool" where
  "startsWith s p = prefix p s"

definition endsWith :: "string \<Rightarrow> string \<Rightarrow> bool" where
  "endsWith s p = suffix p s"

text \<open>
  \<^verbatim>\<open>s.replace(pat, rep)\<close> with a string pattern replaces the first occurrence of \<open>pat\<close> only.
\<close>

fun replace_first :: "string \<Rightarrow> string \<Rightarrow> string \<Rightarrow> string" where
  "replace_first pat rep [] = (if pat = [] then rep else [])"
| "replace_first pat rep (c # cs) =
     (if prefix pat (c # cs) then rep @ drop (length pat) (c # cs) else c # replace_first pat rep cs)"

text \<open>
  A regular expression that is an alternation of literal words, \<^verbatim>\<open>/w1|w2|.../.test(s)\<close>: some
  word occurs in \<open>s\<close>. With the flag \<^verbatim>\<open>i\<close> pattern and input characters are compared after
  canonicalisation to upper case.
\<close>

definition regex_test :: "string list \<Rightarrow> string \<Rightarrow> bool" where
  "regex_test alts s = list_ex (\<lambda>w. sublist w s) alts"

definition regex_test_i :: "string list \<Rightarrow> string \<Rightarrow> bool" where
  "regex_test_i alts s = list_ex (\<lambda>w. sublist (map to_upper w) (map to_upper s)) alts"

text \<open>
  \<^verbatim>\<open>join(dir, file)\<close> of the module \<^verbatim>\<open>path\<close>, for a directory and a plain file name, and
  \<^verbatim>\<open>xs.join(sep)\<close> of an array of strings.
\<close>

definition join :: "string \<Rightarrow> string \<Rightarrow> string" where
  "join dir file = dir @ ''/'' @ file"

fun join_with :: "string \<Rightarrow> string list \<Rightarrow> string" where
  "join_with sep [] = []"
| "join_with sep [x] = x"
| "join_with sep (x # y # ys) = x @ sep @ join_with sep (y # ys)"

section \<open>Data model\<close>

text \<open>
  Modelled from the spec: the interfaces \<^verbatim>\<open>Example\<close>, \<^verbatim>\<open>Rule\<close>, \<^verbatim>\<open>Section\<close> and \<^verbatim>\<open>TestCase\<close>
  of \<^verbatim>\<open>types.ts\<close>, which the scripts import. The fields are those the scripts read and write
  and the spec's data model lists; a field the scripts test for presence (\<^verbatim>\<open>rule.id\<close>,
  \<^verbatim>\<open>example.description\<close>, \<^verbatim>\<open>example.language\<close>, ...) is an option.
\<close>

record example =
  e_label :: string
  e_description :: "string option"
  e_code :: string
  e_language :: "string option"
  e_additionalText :: "string option"

record rule =
  r_id :: "string option"
  r_subsection :: "nat option"
  r_title :: string
  r_impact :: string
  r_impactDescription :: "string option"
  r_tags :: "string list"
  r_explanation :: string
  r_examples :: "example list"
  r_references :: "string list"

record section_meta =
  m_title :: string
  m_impact :: string
  m_introduction :: string

record doc_section =
  s_number :: nat
  s_title :: string
  s_impact :: string
  s_introduction :: string
  s_rules :: "rule list"

datatype polarity = Bad | Good

record test_case =
  tc_ruleId :: string
  tc_ruleTitle :: string
  tc_type :: polarity
  tc_code :: string
  tc_language :: string
  tc_description :: "string option"

section \<open>JavaScript \<open>Map\<close> and \<open>Array.prototype.sort\<close>\<close>

text \<open>
  A \<^verbatim>\<open>Map\<close> keeps its entries in insertion order, one per key: an association list.
  \<^verbatim>\<open>set\<close> overwrites the value of a key already present, in place, and appends a new key.
  \<^verbatim>\<open>new Map(entries)\<close> sets the entries one after the other.
\<close>

type_synonym ('k, 'v) jsmap = "('k \<times> 'v) list"

definition map_has :: "('k, 'v) jsmap \<Rightarrow> 'k \<Rightarrow> bool" where
  "map_has m k = (k \<in> set (map fst m))"

definition map_get :: "('k, 'v) jsmap \<Rightarrow> 'k \<Rightarrow> 'v option" where
  "map_get m k = map_of m k"

fun map_set :: "('k, 'v) jsmap \<Rightarrow> 'k \<Rightarrow> 'v \<Rightarrow> ('k, 'v) jsmap" where
  "map_set [] k v = [(k, v)]"
| "map_set ((k', v') # m) k v = (if k' = k then (k, v) # m else (k', v') # map_set m k v)"

definition map_values :: "('k, 'v) jsmap \<Rightarrow> 'v list" where
  "map_values m = map snd m"

definition new_Map :: "('k \<times> 'v) list \<Rightarrow> ('k, 'v) jsmap" where
  "new_Map entries = fold (\<lambda>(k, v) m. map_set m k v) entries []"

text \<open>
  \<^verbatim>\<open>xs.sort(cmp)\<close> is a stable sort: an element \<open>x\<close> goes before \<open>y\<close> when \<open>cmp x y < 0\<close>, and
  elements that compare equal keep their order. Insertion from the right is the reference
  model: \<open>x\<close> is put before the first element of the sorted rest that it does not exceed.
\<close>

fun js_insert :: "('a \<Rightarrow> 'a \<Rightarrow> int) \<Rightarrow> 'a \<Rightarrow> 'a list \<Rightarrow> 'a list" where
  "js_insert cmp x [] = [x]"
| "js_insert cmp x (y # ys) = (if cmp x y \<le> 0 then x # y # ys else y # js_insert cmp x ys)"

definition js_sort :: "('a \<Rightarrow> 'a \<Rightarrow> int) \<Rightarrow> 'a list \<Rightarrow> 'a list" where
  "js_sort cmp xs = foldr (js_insert cmp) xs []"

section \<open>build.ts: merging and assembling (\<open>buildVersion\<close>)\<close>

text \<open>
  \<^verbatim>\<open>const allRules = [...sharedRules, ...versionRules]\<close> and
  \<^verbatim>\<open>const sectionMetadata = new Map([...sharedSections, ...versionSections])\<close>.
  A rule file is the pair \<^verbatim>\<open>{ section, rule }\<close> that \<^verbatim>\<open>parseRuleFile\<close> returns.
\<close>

type_synonym rule_file = "nat \<times> rule"

definition merge_rules :: "rule_file list \<Rightarrow> rule_file list \<Rightarrow> rule_file list" where
  "merge_rules sharedRules versionRules = sharedRules @ versionRules"

definition merge_sections ::
  "(nat, section_meta) jsmap \<Rightarrow> (nat, section_meta) jsmap \<Rightarrow> (nat, section_meta) jsmap" where
  "merge_sections sharedSections versionSections = new_Map (sharedSections @ versionSections)"

text \<open>
  Grouping: the body of \<^verbatim>\<open>allRules.forEach(({ section, rule }) => ...)\<close>. A section is created
  at the first rule of its number, from the metadata entry or, when there is none, from the
  default \<^verbatim>\<open>{ title: `Section ${section}`, impact: rule.impact, introduction: '' }\<close>; then the
  rule is pushed onto the section's rules.
\<close>

definition meta_or_default :: "(nat, section_meta) jsmap \<Rightarrow> nat \<Rightarrow> rule \<Rightarrow> section_meta" where
  "meta_or_default sectionMetadata n r =
     (case map_get sectionMetadata n of
        Some m \<Rightarrow> m
      | None \<Rightarrow> \<lparr>m_title = ''Section '' @ show_nat n, m_impact = r_impact r, m_introduction = []\<rparr>)"

definition push_rule :: "nat \<Rightarrow> rule \<Rightarrow> (nat, doc_section) jsmap \<Rightarrow> (nat, doc_section) jsmap" where
  "push_rule n r m = map (\<lambda>(k, s). if k = n then (k, s\<lparr>s_rules := s_rules s @ [r]\<rparr>) else (k, s)) m"

definition group_step ::
  "(nat, section_meta) jsmap \<Rightarrow> rule_file \<Rightarrow> (nat, doc_section) jsmap \<Rightarrow> (nat, doc_section) jsmap" where
  "group_step sectionMetadata f sectionsMap =
     (let n = fst f; r = snd f;
          m1 = (if \<not> map_has sectionsMap n
                then (let meta = meta_or_default sectionMetadata n r
                      in map_set sectionsMap n
                           \<lparr>s_number = n, s_title = m_title meta, s_impact = m_impact meta,
                            s_introduction = m_introduction meta, s_rules = []\<rparr>)
                else sectionsMap)
      in push_rule n r m1)"

definition group_rules :: "(nat, section_meta) jsmap \<Rightarrow> rule_file list \<Rightarrow> (nat, doc_section) jsmap" where
  "group_rules sectionMetadata allRules = fold (group_step sectionMetadata) allRules []"

text \<open>
  Sorting and numbering: \<^verbatim>\<open>section.rules.sort((a, b) => a.title.localeCompare(b.title, 'en-US',
  { sensitivity: 'base' }))\<close>, then \<^verbatim>\<open>rule.id = `${section.number}.${index + 1}`\<close> and
  \<^verbatim>\<open>rule.subsection = index + 1\<close>. The collation \<^verbatim>\<open>localeCompare\<close> belongs to the JavaScript
  runtime, not to the repository: it is the parameter \<open>cmp\<close> (negative, zero or positive).
\<close>

definition rule_id :: "nat \<Rightarrow> nat \<Rightarrow> string" where
  "rule_id n index = show_nat n @ ''.'' @ show_nat (index + 1)"

definition assign_ids :: "nat \<Rightarrow> rule list \<Rightarrow> rule list" where
  "assign_ids n rs =
     map (\<lambda>(index, r). r\<lparr>r_id := Some (rule_id n index), r_subsection := Some (index + 1)\<rparr>)
       (enumerate 0 rs)"

definition by_title :: "(string \<Rightarrow> string \<Rightarrow> int) \<Rightarrow> rule \<Rightarrow> rule \<Rightarrow> int" where
  "by_title cmp a b = cmp (r_title a) (r_title b)"

definition sort_and_assign :: "(string \<Rightarrow> string \<Rightarrow> int) \<Rightarrow> doc_section \<Rightarrow> doc_section" where
  "sort_and_assign cmp s = s\<lparr>s_rules := assign_ids (s_number s) (js_sort (by_title cmp) (s_rules s))\<rparr>"

definition by_number :: "doc_section \<Rightarrow> doc_section \<Rightarrow> int" where
  "by_number a b = int (s_number a) - int (s_number b)"

definition assemble ::
  "(string \<Rightarrow> string \<Rightarrow> int) \<Rightarrow> (nat, section_meta) jsmap \<Rightarrow> rule_file list \<Rightarrow> doc_section list" where
  "assemble cmp sectionMetadata allRules =
     js_sort by_number (map (sort_and_assign cmp) (map_values (group_rules sectionMetadata allRules)))"

section \<open>config.ts\<close>

text \<open>
  Paths are written relative to the repository root (\<^verbatim>\<open>ROOT_DIR\<close>). \<^verbatim>\<open>VERSIONS\<close> is an object
  literal with the two keys below, in this order.
\<close>

record version_config =
  rulesDir :: string
  outputDir :: string
  metadataFile :: string
  skillFile :: string

definition SHARED_RULES_DIR :: string where
  "SHARED_RULES_DIR = ''shared/rules''"

definition VERSIONS :: "(string \<times> version_config) list" where
  "VERSIONS =
     [(''v20+'', \<lparr>rulesDir = ''skills/angular-best-practices-v20+/rules'',
                 outputDir = ''skills/angular-best-practices-v20+'',
                 metadataFile = ''skills/angular-best-practices-v20+/metadata.json'',
                 skillFile = ''skills/angular-best-practices-v20+/SKILL.md''\<rparr>),
      (''legacy'', \<lparr>rulesDir = ''skills/angular-best-practices-legacy/rules'',
                   outputDir = ''skills/angular-best-practices-legacy'',
                   metadataFile = ''skills/angular-best-practices-legacy/metadata.json'',
                   skillFile = ''skills/angular-best-practices-legacy/SKILL.md''\<rparr>)]"

definition Object_keys :: "(string \<times> 'v) list \<Rightarrow> string list" where
  "Object_keys obj = map fst obj"

text \<open>
  \<^verbatim>\<open>VERSIONS[version]\<close> is a property read on an ordinary object: an own property gives its
  configuration, and a name that is not an own property is looked up on \<^verbatim>\<open>Object.prototype\<close>,
  whose members (functions, and the prototype itself for \<^verbatim>\<open>__proto__\<close>) are all truthy. Any
  other name reads as \<^verbatim>\<open>undefined\<close>.
\<close>

datatype property_value = Own version_config | Inherited

definition Object_prototype_names :: "string list" where
  "Object_prototype_names =
     [''constructor'', ''hasOwnProperty'', ''isPrototypeOf'', ''propertyIsEnumerable'',
      ''toLocaleString'', ''toString'', ''valueOf'', ''__proto__'', ''__defineGetter__'',
      ''__defineSetter__'', ''__lookupGetter__'', ''__lookupSetter__'']"

definition VERSIONS_get :: "string \<Rightarrow> property_value option" where
  "VERSIONS_get version =
     (case map_of VERSIONS version of
        Some config \<Rightarrow> Some (Own config)
      | None \<Rightarrow> (if version \<in> set Object_prototype_names then Some Inherited else None))"

section \<open>The file system and the parser\<close>

text \<open>
  \<^verbatim>\<open>readdir(dir)\<close> gives the names in a directory, or throws when the directory does not exist:
  the parameter \<open>readdir\<close>, with \<open>None\<close> for the exception.

  Modelled from the spec: \<^verbatim>\<open>parseRuleFile\<close> of \<^verbatim>\<open>parser.ts\<close>, which is not among the sources. It
  is the parameter \<open>parse\<close>: for a path it returns the pair \<^verbatim>\<open>{ section, rule }\<close> or throws
  (\<open>Inl\<close> the message).
\<close>

type_synonym fs = "string \<Rightarrow> string list option"

type_synonym parser = "string \<Rightarrow> string + rule_file"

section \<open>build.ts: \<open>readRulesFromDir\<close>\<close>

text \<open>
  \<^verbatim>\<open>files.filter(f => f.endsWith('.md') && !f.startsWith('_') && f !== 'README.md').sort()\<close>;
  the default order of \<^verbatim>\<open>sort()\<close> compares strings code unit by code unit. A file that does not
  parse is logged and left out; a directory that cannot be read gives the empty list.
\<close>

fun code_unit_compare :: "string \<Rightarrow> string \<Rightarrow> int" where
  "code_unit_compare [] [] = 0"
| "code_unit_compare [] (b # bs) = - 1"
| "code_unit_compare (a # as) [] = 1"
| "code_unit_compare (a # as) (b # bs) =
     (if (of_char a :: nat) < of_char b then - 1
      else if (of_char b :: nat) < of_char a then 1
      else code_unit_compare as bs)"

definition build_rule_files :: "string list \<Rightarrow> string list" where
  "build_rule_files files =
     js_sort code_unit_compare
       (filter (\<lambda>f. endsWith f ''.md'' \<and> \<not> startsWith f ''_'' \<and> f \<noteq> ''README.md'') files)"

definition readRulesFromDir :: "parser \<Rightarrow> fs \<Rightarrow> string \<Rightarrow> rule_file list" where
  "readRulesFromDir parse readdir dir =
     (case readdir dir of
        None \<Rightarrow> []
      | Some files \<Rightarrow>
          concat (map (\<lambda>file. case parse (join dir file) of Inr parsed \<Rightarrow> [parsed] | Inl _ \<Rightarrow> [])
                    (build_rule_files files)))"

section \<open>validate.ts\<close>

record validation_error =
  ve_file :: string
  ve_source :: string
  ve_message :: string

definition validImpacts :: "string list" where
  "validImpacts = [''CRITICAL'', ''HIGH'', ''MEDIUM-HIGH'', ''MEDIUM'', ''LOW-MEDIUM'', ''LOW'']"

definition has_bad_label :: "example \<Rightarrow> bool" where
  "has_bad_label e = regex_test_i [''incorrect'', ''wrong'', ''bad''] (e_label e)"

definition has_good_label :: "example \<Rightarrow> bool" where
  "has_good_label e =
     regex_test_i [''correct'', ''good'', ''usage'', ''example'', ''implementation''] (e_label e)"

definition validateRule :: "rule \<Rightarrow> string \<Rightarrow> string \<Rightarrow> validation_error list" where
  "validateRule rule file source =
     (let err = (\<lambda>m. \<lparr>ve_file = file, ve_source = source, ve_message = m\<rparr>);
          e1 = (if trim (r_title rule) = [] then [err ''Missing or empty title''] else []);
          e2 = (if trim (r_explanation rule) = [] then [err ''Missing or empty explanation''] else []);
          e3 = (if r_examples rule = [] then [err ''Missing examples'']
                else (let codeExamples = filter (\<lambda>e. trim (e_code e) \<noteq> []) (r_examples rule);
                          hasBad = list_ex has_bad_label codeExamples;
                          hasGood = list_ex has_good_label codeExamples
                      in if codeExamples = [] then [err ''Missing code examples'']
                         else if \<not> hasBad \<and> \<not> hasGood
                           then [err ''Missing bad/incorrect or good/correct examples'']
                         else []));
          e4 = (if r_impact rule \<notin> set validImpacts
                then [err (''Invalid impact: '' @ r_impact rule)] else [])
      in e1 @ e2 @ e3 @ e4)"

definition validate_rule_files :: "string list \<Rightarrow> string list" where
  "validate_rule_files files = filter (\<lambda>f. endsWith f ''.md'' \<and> \<not> startsWith f ''_'') files"

definition validate_file :: "parser \<Rightarrow> string \<Rightarrow> string \<Rightarrow> string \<Rightarrow> validation_error list" where
  "validate_file parse dir source file =
     (case parse (join dir file) of
        Inr parsed \<Rightarrow> validateRule (snd parsed) file source
      | Inl message \<Rightarrow>
          [\<lparr>ve_file = file, ve_source = source, ve_message = ''Parse error: '' @ message\<rparr>])"

definition validateDir :: "parser \<Rightarrow> fs \<Rightarrow> string \<Rightarrow> string \<Rightarrow> validation_error list \<times> nat" where
  "validateDir parse readdir dir source =
     (case readdir dir of
        None \<Rightarrow> ([], 0)
      | Some files \<Rightarrow>
          (let ruleFiles = validate_rule_files files
           in (concat (map (validate_file parse dir source) ruleFiles), length ruleFiles)))"

text \<open>
  \<^verbatim>\<open>validate()\<close>: the shared directory first, then every entry of \<^verbatim>\<open>VERSIONS\<close>. With an error
  it prints them all and calls \<^verbatim>\<open>process.exit(1)\<close>; otherwise the process ends with status 0.
\<close>

record validate_result =
  allErrors :: "validation_error list"
  totalFiles :: nat
  exit_status :: nat

definition validate :: "parser \<Rightarrow> fs \<Rightarrow> validate_result" where
  "validate parse readdir =
     (let results = validateDir parse readdir SHARED_RULES_DIR ''shared'' #
                    map (\<lambda>(version, config). validateDir parse readdir (rulesDir config) version) VERSIONS;
          errs = concat (map fst results)
      in \<lparr>allErrors = errs, totalFiles = sum_list (map snd results),
          exit_status = (if length errs > 0 then 1 else 0)\<rparr>)"

section \<open>extract-tests.ts\<close>

definition classify :: "string \<Rightarrow> polarity option" where
  "classify label =
     (let labelLower = toLowerCase label
      in if regex_test [''incorrect'', ''bad'', ''wrong''] labelLower then Some Bad
         else if regex_test [''correct'', ''good'', ''example'', ''usage''] labelLower then Some Good
         else None)"

definition extract_example :: "string \<Rightarrow> rule \<Rightarrow> example \<Rightarrow> test_case list" where
  "extract_example file rule example =
     (if trim (e_code example) = [] then []
      else (case classify (e_label example) of
              None \<Rightarrow> []
            | Some type \<Rightarrow>
                [\<lparr>tc_ruleId = (if truthy (r_id rule) then the (r_id rule) else replace_first ''.md'' [] file),
                  tc_ruleTitle = r_title rule,
                  tc_type = type,
                  tc_code = e_code example,
                  tc_language = or_else (e_language example) ''typescript'',
                  tc_description = e_description example\<rparr>]))"

definition extract_rule_files :: "string list \<Rightarrow> string list" where
  "extract_rule_files files = filter (\<lambda>f. endsWith f ''.md'' \<and> \<not> startsWith f ''_'') files"

definition extract_file :: "parser \<Rightarrow> string \<Rightarrow> string \<Rightarrow> test_case list" where
  "extract_file parse dir file =
     (case parse (join dir file) of
        Inr parsed \<Rightarrow> concat (map (extract_example file (snd parsed)) (r_examples (snd parsed)))
      | Inl _ \<Rightarrow> [])"

definition extractFromDir :: "parser \<Rightarrow> fs \<Rightarrow> string \<Rightarrow> test_case list" where
  "extractFromDir parse readdir dir =
     (case readdir dir of
        None \<Rightarrow> []
      | Some files \<Rightarrow> concat (map (extract_file parse dir) (extract_rule_files files)))"

definition extractTests :: "parser \<Rightarrow> fs \<Rightarrow> test_case list" where
  "extractTests parse readdir =
     extractFromDir parse readdir SHARED_RULES_DIR @
     concat (map (\<lambda>(version, config). extractFromDir parse readdir (rulesDir config)) VERSIONS)"

section \<open>build.ts: the command (\<open>build\<close>)\<close>

text \<open>
  \<^verbatim>\<open>const targetVersion = args.find(a => !a.startsWith('--'))\<close>, and
  \<^verbatim>\<open>const versions = targetVersion ? [targetVersion] : Object.keys(VERSIONS)\<close>. The loop stops
  the process with status 1 at a version for which \<^verbatim>\<open>!VERSIONS[version]\<close>; otherwise it calls
  \<^verbatim>\<open>buildVersion\<close>, whose exception (if any) ends the run in the handler of \<^verbatim>\<open>build().catch\<close>.
  What the run does is the list of its events; \<open>throws\<close> tells whether \<^verbatim>\<open>buildVersion\<close> throws
  for a version (it reads and writes files).
\<close>

datatype event =
    Unknown_version string
  | Available_versions "string list"
  | Build_version string
  | Build_failed
  | Build_complete

definition targetVersion :: "string list \<Rightarrow> string option" where
  "targetVersion args = find (\<lambda>a. \<not> startsWith a ''--'') args"

fun build_loop :: "(string \<Rightarrow> bool) \<Rightarrow> string list \<Rightarrow> event list \<times> nat" where
  "build_loop throws [] = ([Build_complete], 0)"
| "build_loop throws (version # versions) =
     (case VERSIONS_get version of
        None \<Rightarrow> ([Unknown_version version, Available_versions (Object_keys VERSIONS)], 1)
      | Some _ \<Rightarrow>
          (if throws version then ([Build_version version, Build_failed], 1)
           else (let (events, status) = build_loop throws versions
                 in (Build_version version # events, status))))"

definition build :: "(string \<Rightarrow> bool) \<Rightarrow> string list \<Rightarrow> event list \<times> nat" where
  "build throws args =
     (let versions = (if truthy (targetVersion args) then [the (targetVersion args)]
                      else Object_keys VERSIONS)
      in build_loop throws versions)"

section \<open>build.ts: \<open>generateMarkdown\<close>\<close>

text \<open>
  The document is built by \<^verbatim>\<open>md += ...\<close>, every piece ending in one or two line feeds:
  \<open>ln x\<close> is \<^verbatim>\<open>`x\n`\<close> and \<open>para x\<close> is \<^verbatim>\<open>`x\n\n`\<close>. The em dash of the table of contents
  (one code unit in JavaScript) is written as its three UTF-8 bytes. \<^verbatim>\<open>${rule.id}\<close> prints
  \<^verbatim>\<open>undefined\<close> for a rule without id.
\<close>

record metadata =
  md_version :: string
  md_organization :: string
  md_date :: string
  md_abstract :: string
  md_angularVersion :: string
  md_references :: "string list option"

definition ln :: "string \<Rightarrow> string" where
  "ln x = x @ [NL]"

definition para :: "string \<Rightarrow> string" where
  "para x = x @ [NL, NL]"

definition em_dash :: string where
  "em_dash = [CHR 0xE2, CHR 0x80, CHR 0x94]"

definition id_text :: "rule \<Rightarrow> string" where
  "id_text r = (case r_id r of None \<Rightarrow> ''undefined'' | Some i \<Rightarrow> i)"

text \<open>\<^verbatim>\<open>.replace(/\s+/g, '-')\<close>: every maximal run of white space becomes one hyphen.\<close>

fun collapse_ws :: "bool \<Rightarrow> string \<Rightarrow> string" where
  "collapse_ws in_run [] = []"
| "collapse_ws in_run (c # cs) =
     (if is_space c then (if in_run then collapse_ws True cs else CHR ''-'' # collapse_ws True cs)
      else c # collapse_ws False cs)"

definition replace_ws :: "string \<Rightarrow> string" where
  "replace_ws s = collapse_ws False s"

definition section_anchor :: "doc_section \<Rightarrow> string" where
  "section_anchor s =
     show_nat (s_number s) @ ''-'' @ filter (\<lambda>c. c \<noteq> CHR ''&'') (replace_ws (toLowerCase (s_title s)))"

definition rule_anchor :: "rule \<Rightarrow> string" where
  "rule_anchor r =
     filter (\<lambda>c. is_word c \<or> c = CHR ''-'') (replace_ws (toLowerCase (id_text r @ '' '' @ r_title r)))"

definition toc_rule :: "rule \<Rightarrow> string" where
  "toc_rule r = ln (''   - '' @ id_text r @ '' ['' @ r_title r @ ''](#'' @ rule_anchor r @ '')'')"

definition toc_section :: "doc_section \<Rightarrow> string" where
  "toc_section s =
     ln (show_nat (s_number s) @ ''. ['' @ s_title s @ ''](#'' @ section_anchor s @ '') '' @ em_dash @
         '' **'' @ s_impact s @ ''**'') @
     concat (map toc_rule (s_rules s))"

definition render_example :: "example \<Rightarrow> string" where
  "render_example e =
     (if truthy (e_description e)
      then para (''**'' @ e_label e @ '' ('' @ the (e_description e) @ ''):**'')
      else para (''**'' @ e_label e @ '':**'')) @
     (if trim (e_code e) \<noteq> []
      then ln (''```'' @ or_else (e_language e) ''typescript'') @ ln (e_code e) @ para ''```''
      else []) @
     (if truthy (e_additionalText e) then para (the (e_additionalText e)) else [])"

definition link :: "string \<Rightarrow> string" where
  "link ref = ''['' @ ref @ '']('' @ ref @ '')''"

definition rule_heading :: "rule \<Rightarrow> string" where
  "rule_heading r = ''### '' @ id_text r @ '' '' @ r_title r"

definition render_rule :: "rule \<Rightarrow> string" where
  "render_rule r =
     para (rule_heading r) @
     para (''**Impact: '' @ r_impact r @
           (if truthy (r_impactDescription r) then '' ('' @ the (r_impactDescription r) @ '')'' else []) @
           ''**'') @
     para (r_explanation r) @
     concat (map render_example (r_examples r)) @
     (if r_references r \<noteq> []
      then para (''Reference: '' @ join_with '', '' (map link (r_references r)))
      else [])"

definition render_section :: "doc_section \<Rightarrow> string" where
  "render_section s =
     para (''## '' @ show_nat (s_number s) @ ''. '' @ s_title s) @
     para (''**Impact: '' @ s_impact s @ ''**'') @
     (if s_introduction s \<noteq> [] then para (s_introduction s) else []) @
     concat (map render_rule (s_rules s)) @
     para ''---''"

definition render_reference :: "nat \<times> string \<Rightarrow> string" where
  "render_reference p = ln (show_nat (fst p + 1) @ ''. '' @ link (snd p))"

definition generateMarkdown :: "doc_section list \<Rightarrow> metadata \<Rightarrow> string" where
  "generateMarkdown sections metadata =
     para (''# Angular Best Practices ('' @ md_angularVersion metadata @ '')'') @
     ln (''**Version '' @ md_version metadata @ ''**  '') @
     ln (md_organization metadata @ ''  '') @
     para (md_date metadata) @
     ln ''> **Note:**  '' @
     ln ''> This document is for AI agents and LLMs to follow when maintaining,  '' @
     para (''> generating, or refactoring Angular codebases. Optimized for '' @
           md_angularVersion metadata @ ''.'') @
     para ''---'' @
     para ''## Abstract'' @
     para (md_abstract metadata) @
     para ''---'' @
     para ''## Table of Contents'' @
     concat (map toc_section sections) @
     ln [] @ para ''---'' @
     concat (map render_section sections) @
     (case md_references metadata of
        None \<Rightarrow> []
      | Some refs \<Rightarrow>
          (if refs \<noteq> [] then para ''## References'' @ concat (map render_reference (enumerate 0 refs))
           else []))"

section \<open>Reading the rule headings back\<close>

text \<open>
  The round trip of the specification: the rendered document is split into lines, the rule
  headings are the lines that begin with \<^verbatim>\<open>### \<close>, and of each heading the first token is the
  id and the remainder the title.
\<close>

fun lines_of :: "string \<Rightarrow> string list" where
  "lines_of [] = [[]]"
| "lines_of (c # cs) =
     (if c = NL then [] # lines_of cs else (c # hd (lines_of cs)) # tl (lines_of cs))"

definition heading_lines :: "string \<Rightarrow> string list" where
  "heading_lines md = filter (prefix ''### '') (lines_of md)"

definition split_heading :: "string \<Rightarrow> string \<times> string" where
  "split_heading l =
     (let rest = drop 4 l
      in (takeWhile (\<lambda>c. c \<noteq> CHR '' '') rest, drop 1 (dropWhile (\<lambda>c. c \<noteq> CHR '' '') rest)))"

definition regroup_headings :: "string \<Rightarrow> (string \<times> string) list" where
  "regroup_headings md = map split_heading (heading_lines md)"

definition id_title_pairs :: "doc_section list \<Rightarrow> (string \<times> string) list" where
  "id_title_pairs sections = concat (map (\<lambda>s. map (\<lambda>r. (id_text r, r_title r)) (s_rules s)) sections)"

section \<open>Notions used in the statements\<close>

text \<open>
  A comparator is consistent when it is total and transitive (a total preorder), which is what
  \<^verbatim>\<open>sort\<close> asks of it; two elements are tied when neither comes after the other.
\<close>

definition consistent :: "('a \<Rightarrow> 'a \<Rightarrow> int) \<Rightarrow> bool" where
  "consistent cmp = ((\<forall>a b. cmp a b \<le> 0 \<or> cmp b a \<le> 0) \<and>
                     (\<forall>a b c. cmp a b \<le> 0 \<longrightarrow> cmp b c \<le> 0 \<longrightarrow> cmp a c \<le> 0))"


text \<open>The rules of one section number, in the order of the input.\<close>

definition rules_of :: "nat \<Rightarrow> rule_file list \<Rightarrow> rule list" where
  "rules_of n fs = map snd (filter (\<lambda>f. fst f = n) fs)"

text \<open>
  The invariants of the grouping loop: the map has one section per number seen so far, each
  with the rules of its number in input order, and with the title, impact and introduction
  that the metadata (or the default) gives at one of its rules.
\<close>

definition grouped :: "(nat, doc_section) jsmap \<Rightarrow> rule_file list \<Rightarrow> bool" where
  "grouped m fs = (distinct (map fst m) \<and> fst ` set m = fst ` set fs \<and>
     (\<forall>(k, s) \<in> set m. s_number s = k \<and> s_rules s = rules_of k fs))"

definition titled :: "(nat, section_meta) jsmap \<Rightarrow> (nat, doc_section) jsmap \<Rightarrow> rule_file list \<Rightarrow> bool" where
  "titled sm m fs = (\<forall>(k, s) \<in> set m. \<exists>r. (k, r) \<in> set fs \<and>
      s_title s = m_title (meta_or_default sm k r) \<and>
      s_impact s = m_impact (meta_or_default sm k r) \<and>
      s_introduction s = m_introduction (meta_or_default sm k r))"

text \<open>
  A sample collation for the concrete instances: it compares ASCII case-folded character
  codes one by one. It stands for \<^verbatim>\<open>localeCompare\<close> there; the theorems hold for every
  consistent comparator.
\<close>

definition fold_key :: "char \<Rightarrow> nat" where
  "fold_key c = of_char (to_lower c)"

fun base_compare :: "string \<Rightarrow> string \<Rightarrow> int" where
  "base_compare [] [] = 0"
| "base_compare [] (b # bs) = - 1"
| "base_compare (a # as) [] = 1"
| "base_compare (a # as) (b # bs) =
     (if fold_key a < fold_key b then - 1 else if fold_key b < fold_key a then 1 else base_compare as bs)"

definition sample_rule :: "string \<Rightarrow> rule" where
  "sample_rule t =
     \<lparr>r_id = None, r_subsection = None, r_title = t, r_impact = ''HIGH'',
      r_impactDescription = None, r_tags = [], r_explanation = ''Why it matters.'',
      r_examples = [], r_references = []\<rparr>"

definition sample_meta :: "string \<Rightarrow> section_meta" where
  "sample_meta t = \<lparr>m_title = t, m_impact = ''MEDIUM'', m_introduction = []\<rparr>"

text \<open>
  The checklist of the validator in the specification's words: a title and an explanation that
  are not blank, an example with code, an example with code whose label signals a polarity (it
  contains, in any letter case, one of the words for a bad or for a good example), and an impact
  of the closed enumeration. A rule file is a name that ends in \<^verbatim>\<open>.md\<close> and does not begin with an
  underscore; the corpora of a run are the shared directory and the directory of every
  variant, each with the name it is reported under. A violation is the record the validator
  reports.
\<close>

definition bad_words :: "string list" where
  "bad_words = [''bad'', ''incorrect'', ''wrong'']"

definition good_words :: "string list" where
  "good_words = [''good'', ''correct'', ''usage'', ''example'', ''implementation'']"

definition signals_polarity :: "string \<Rightarrow> bool" where
  "signals_polarity label = (\<exists>w \<in> set (bad_words @ good_words). sublist w (toLowerCase label))"

definition checklist_ok :: "rule \<Rightarrow> bool" where
  "checklist_ok r =
     (trim (r_title r) \<noteq> [] \<and>
      trim (r_explanation r) \<noteq> [] \<and>
      (\<exists>e \<in> set (r_examples r). trim (e_code e) \<noteq> []) \<and>
      (\<exists>e \<in> set (r_examples r). trim (e_code e) \<noteq> [] \<and> signals_polarity (e_label e)) \<and>
      r_impact r \<in> {''CRITICAL'', ''HIGH'', ''MEDIUM-HIGH'', ''MEDIUM'', ''LOW-MEDIUM'', ''LOW''})"

definition rule_file_name :: "string \<Rightarrow> bool" where
  "rule_file_name f = (suffix ''.md'' f \<and> \<not> prefix ''_'' f)"

definition corpora :: "(string \<times> string) list" where
  "corpora =
     [(''shared/rules'', ''shared''),
      (''skills/angular-best-practices-v20+/rules'', ''v20+''),
      (''skills/angular-best-practices-legacy/rules'', ''legacy'')]"

definition violation :: "string \<Rightarrow> string \<Rightarrow> string \<Rightarrow> validation_error" where
  "violation file source message = \<lparr>ve_file = file, ve_source = source, ve_message = message\<rparr>"

text \<open>Sample inputs for the concrete instances.\<close>

definition sample_example :: "string \<Rightarrow> string \<Rightarrow> example" where
  "sample_example label code =
     \<lparr>e_label = label, e_description = None, e_code = code, e_language = None, e_additionalText = None\<rparr>"

definition sample_parser :: "rule \<Rightarrow> parser" where
  "sample_parser r path = (if suffix ''broken.md'' path then Inl ''no frontmatter'' else Inr (1, r))"

definition sample_fs :: "string list \<Rightarrow> fs" where
  "sample_fs files dir = (if dir = SHARED_RULES_DIR then Some files else None)"

definition two_corpora_fs :: fs where
  "two_corpora_fs dir =
     (if dir = ''shared/rules'' then Some [''a.md'', ''_sections.md'']
      else if dir = ''skills/angular-best-practices-legacy/rules'' then Some [''broken.md'']
      else None)"

definition implementation_example :: example where
  "implementation_example = sample_example ''Implementation'' ''const x = 1''"

definition invalid_rule :: rule where
  "invalid_rule = (sample_rule '' '')\<lparr>r_impact := ''URGENT''\<rparr>"

definition labelled_rule :: rule where
  "labelled_rule = (sample_rule ''Use X'')\<lparr>r_examples := [sample_example ''Incorrect (old pattern)'' ''f()'']\<rparr>"

text \<open>
  A text is clean when none of its lines begins with \<^verbatim>\<open>###\<close> (\<open>tl_clean\<close>: none after the
  first, for a text that continues a line). The renderer escapes nothing, so these are the
  texts that cannot be mistaken for a rule heading: a rule is clean when its title is one line
  and its other texts are clean, and likewise for examples, section metadata, the document's
  metadata and a section.
\<close>

definition clean :: "string \<Rightarrow> bool" where
  "clean t = (\<forall>l \<in> set (lines_of t). \<not> prefix ''###'' l)"

definition tl_clean :: "string \<Rightarrow> bool" where
  "tl_clean t = (\<forall>l \<in> set (tl (lines_of t)). \<not> prefix ''###'' l)"

definition clean_opt :: "string option \<Rightarrow> bool" where
  "clean_opt x = (case x of None \<Rightarrow> True | Some t \<Rightarrow> clean t)"

definition clean_example :: "example \<Rightarrow> bool" where
  "clean_example e =
     (clean (e_label e) \<and> clean_opt (e_description e) \<and> clean (e_code e) \<and>
      clean_opt (e_language e) \<and> clean_opt (e_additionalText e))"

definition clean_rule :: "rule \<Rightarrow> bool" where
  "clean_rule r =
     (NL \<notin> set (r_title r) \<and> clean (r_impact r) \<and> clean_opt (r_impactDescription r) \<and>
      clean (r_explanation r) \<and> list_all clean_example (r_examples r) \<and>
      list_all clean (r_references r))"

definition clean_meta :: "section_meta \<Rightarrow> bool" where
  "clean_meta m = (clean (m_title m) \<and> clean (m_impact m) \<and> clean (m_introduction m))"

definition clean_metadata :: "metadata \<Rightarrow> bool" where
  "clean_metadata md =
     (clean (md_version md) \<and> clean (md_organization md) \<and> clean (md_date md) \<and>
      clean (md_abstract md) \<and> clean (md_angularVersion md) \<and>
      (case md_references md of None \<Rightarrow> True | Some refs \<Rightarrow> list_all clean refs))"

definition clean_section :: "doc_section \<Rightarrow> bool" where
  "clean_section s =
     (clean (s_title s) \<and> clean (s_impact s) \<and> clean (s_introduction s) \<and>
      list_all (\<lambda>r. clean_rule r \<and> NL \<notin> set (id_text r)) (s_rules s))"

definition sample_metadata :: metadata where
  "sample_metadata =
     \<lparr>md_version = ''1.0.0'', md_organization = ''Community'', md_date = ''January 2026'',
      md_abstract = ''Guide.'', md_angularVersion = ''Angular 20+'', md_references = None\<rparr>"

definition heading_in_explanation :: rule where
  "heading_in_explanation = (sample_rule ''Use X'')\<lparr>r_explanation := ''### 9.9 Fake''\<rparr>"

section \<open>Properties\<close>

subsection \<open>Decimal rendering\<close>

lemma digit_cases: "(d::nat) < 10 \<Longrightarrow> d \<in> {0, 1, 2, 3, 4, 5, 6, 7, 8, 9}"
  by auto

lemma digit_inj:
  assumes "a < 10" "b < 10" "digit a = digit b"
  shows "a = b"
  using digit_cases[OF assms(1)] digit_cases[OF assms(2)] assms(3)
  by (auto simp: digit_def)

lemma digit_not_sep:
  "d < 10 \<Longrightarrow> digit d \<noteq> CHR ''.'' \<and> digit d \<noteq> CHR '' '' \<and> digit d \<noteq> CHR 10 \<and> digit d \<noteq> CHR ''#''"
  using digit_cases[of d] by (auto simp: digit_def)

lemma show_nat_ne: "show_nat n \<noteq> []"
  by (subst show_nat.simps) simp

lemma show_nat_inj: "show_nat n = show_nat m \<Longrightarrow> n = m"
proof (induction n arbitrary: m rule: show_nat.induct)
  case (1 n)
  show ?case
  proof (cases "n < 10")
    case True
    then have a: "show_nat n = [digit n]" by (subst show_nat.simps) simp
    show ?thesis
    proof (cases "m < 10")
      case True
      then have "show_nat m = [digit m]" by (subst show_nat.simps) simp
      with a 1(2) \<open>n < 10\<close> True show ?thesis by (simp add: digit_inj)
    next
      case False
      then have "show_nat m = show_nat (m div 10) @ [digit (m mod 10)]" by (subst show_nat.simps) simp
      with a 1(2) show_nat_ne[of "m div 10"] show ?thesis by simp
    qed
  next
    case False
    then have a: "show_nat n = show_nat (n div 10) @ [digit (n mod 10)]" by (subst show_nat.simps) simp
    show ?thesis
    proof (cases "m < 10")
      case True
      then have "show_nat m = [digit m]" by (subst show_nat.simps) simp
      with a 1(2) show_nat_ne[of "n div 10"] show ?thesis by simp
    next
      case m: False
      then have "show_nat m = show_nat (m div 10) @ [digit (m mod 10)]" by (subst show_nat.simps) simp
      with a 1(2) have e: "show_nat (n div 10) = show_nat (m div 10)" "digit (n mod 10) = digit (m mod 10)"
        by simp_all
      from 1(1)[OF False e(1)] have "n div 10 = m div 10" .
      moreover from e(2) have "n mod 10 = m mod 10" by (intro digit_inj) simp_all
      ultimately show ?thesis by (metis div_mult_mod_eq)
    qed
  qed
qed

lemma show_nat_digits: "c \<in> set (show_nat n) \<Longrightarrow> \<exists>d<10. c = digit d"
proof (induction n rule: show_nat.induct)
  case (1 n)
  show ?case
  proof (cases "n < 10")
    case True
    with 1(2) show ?thesis by (subst (asm) show_nat.simps) auto
  next
    case False
    with 1(2) have "c \<in> set (show_nat (n div 10)) \<or> c = digit (n mod 10)"
      by (subst (asm) show_nat.simps) auto
    with 1(1)[OF False] show ?thesis by (metis mod_less_divisor zero_less_numeral)
  qed
qed

subsection \<open>Sorting\<close>

lemma mset_js_insert: "mset (js_insert cmp x xs) = add_mset x (mset xs)"
  by (induction xs) auto

lemma mset_js_sort: "mset (js_sort cmp xs) = mset xs"
  by (induction xs) (auto simp: js_sort_def mset_js_insert)

lemma set_js_sort: "set (js_sort cmp xs) = set xs"
  by (metis mset_js_sort set_mset_mset)

lemma length_js_sort: "length (js_sort cmp xs) = length xs"
  by (metis mset_js_sort size_mset)

lemma js_sort_Cons: "js_sort cmp (x # xs) = js_insert cmp x (js_sort cmp xs)"
  by (simp add: js_sort_def)

lemma js_sort_Nil: "js_sort cmp [] = []"
  by (simp add: js_sort_def)

lemma set_js_insert: "set (js_insert cmp x xs) = insert x (set xs)"
  by (induction xs) auto

lemma sorted_js_insert:
  assumes "consistent cmp" "sorted_wrt (\<lambda>a b. cmp a b \<le> 0) xs"
  shows "sorted_wrt (\<lambda>a b. cmp a b \<le> 0) (js_insert cmp x xs)"
  using assms(2)
proof (induction xs)
  case Nil
  then show ?case by simp
next
  case (Cons y ys)
  show ?case
  proof (cases "cmp x y \<le> 0")
    case True
    have "\<forall>z\<in>set ys. cmp x z \<le> 0"
      using Cons.prems True assms(1) unfolding consistent_def by (metis sorted_wrt.simps(2))
    with True Cons.prems show ?thesis by simp
  next
    case False
    then have yx: "cmp y x \<le> 0" using assms(1) unfolding consistent_def by blast
    from Cons have "sorted_wrt (\<lambda>a b. cmp a b \<le> 0) (js_insert cmp x ys)" by simp
    with False yx Cons.prems show ?thesis by (auto simp: set_js_insert)
  qed
qed

lemma sorted_js_sort:
  "consistent cmp \<Longrightarrow> sorted_wrt (\<lambda>a b. cmp a b \<le> 0) (js_sort cmp xs)"
  by (induction xs) (simp_all add: js_sort_Nil js_sort_Cons sorted_js_insert)



subsection \<open>Maps\<close>

lemma map_set_keys: "map fst (map_set m k v) = (if k \<in> fst ` set m then map fst m else map fst m @ [k])"
  by (induction m) force+

lemma map_set_keys_set: "fst ` set (map_set m k v) = insert k (fst ` set m)"
  using arg_cong[OF map_set_keys[of m k v], of set] by (auto split: if_splits)

lemma map_of_map_set: "map_of (map_set m k v) = (map_of m)(k \<mapsto> v)"
  by (induction m) (auto simp: fun_eq_iff)

lemma distinct_map_set: "distinct (map fst m) \<Longrightarrow> distinct (map fst (map_set m k v))"
  by (simp add: map_set_keys)

lemma set_map_set_new: "k \<notin> fst ` set m \<Longrightarrow> map_set m k v = m @ [(k, v)]"
  by (induction m) force+

lemma new_Map_fold:
  "map_of (fold (\<lambda>(k, v) m. map_set m k v) es m0) = map_of m0 ++ map_of (rev es)"
proof (induction es arbitrary: m0)
  case Nil
  then show ?case by simp
next
  case (Cons e es)
  obtain k v where e: "e = (k, v)" by (cases e)
  show ?case
    by (simp add: e Cons map_of_map_set map_add_def fun_eq_iff split: option.splits)
qed

lemma keys_fold_map_set:
  "fst ` set (fold (\<lambda>(k, v) m. map_set m k v) es m0) = fst ` set m0 \<union> fst ` set es"
proof (induction es arbitrary: m0)
  case Nil
  then show ?case by simp
next
  case (Cons e es)
  obtain k v where e: "e = (k, v)" by (cases e)
  have "fst ` set (fold (\<lambda>(k, v) m. map_set m k v) (e # es) m0)
      = fst ` set (map_set m0 k v) \<union> fst ` set es"
    by (simp add: e Cons.IH)
  also have "\<dots> = fst ` set m0 \<union> fst ` set (e # es)"
    unfolding map_set_keys_set e by auto
  finally show ?case .
qed

lemma distinct_fold_map_set:
  "distinct (map fst m0) \<Longrightarrow> distinct (map fst (fold (\<lambda>(k, v) m. map_set m k v) es m0))"
  by (induction es arbitrary: m0) (auto simp: distinct_map_set)

subsection \<open>Grouping\<close>

lemma push_rule_keys: "map fst (push_rule n r m) = map fst m"
  by (induction m) (auto simp: push_rule_def)

lemma grouped_step:
  assumes "grouped m fs"
  shows "grouped (group_step meta f m) (fs @ [f])"
proof -
  obtain n r where f: "f = (n, r)" by (cases f)
  define m1 where "m1 = (if \<not> map_has m n
                then (let me = meta_or_default meta n r
                      in map_set m n
                           \<lparr>s_number = n, s_title = m_title me, s_impact = m_impact me,
                            s_introduction = m_introduction me, s_rules = []\<rparr>)
                else m)"
  have gs: "group_step meta f m = push_rule n r m1"
    by (simp add: group_step_def f m1_def Let_def)
  have k1: "distinct (map fst m1)" "fst ` set m1 = insert n (fst ` set fs)"
    using assms by (auto simp: m1_def grouped_def map_has_def Let_def map_set_keys_set distinct_map_set)
  have v1: "\<forall>(k, s) \<in> set m1. s_number s = k \<and> s_rules s = rules_of k fs"
  proof (cases "map_has m n")
    case True
    then show ?thesis using assms by (simp add: m1_def grouped_def)
  next
    case False
    then have "n \<notin> fst ` set fs" using assms by (auto simp: grouped_def map_has_def)
    then have "rules_of n fs = []" by (auto simp: rules_of_def filter_empty_conv)
    with False assms show ?thesis
      by (auto simp: m1_def grouped_def map_has_def Let_def set_map_set_new)
  qed
  have "\<forall>(k, s) \<in> set (push_rule n r m1). s_number s = k \<and> s_rules s = rules_of k (fs @ [f])"
    using v1 by (fastforce simp: push_rule_def rules_of_def f split: if_splits)
  moreover have "fst ` set (push_rule n r m1) = fst ` set m1"
    using arg_cong[OF push_rule_keys[of n r m1], of set] by simp
  moreover have "distinct (map fst (push_rule n r m1))"
    using k1(1) by (simp only: push_rule_keys)
  ultimately show ?thesis
    unfolding grouped_def gs using k1(2) by (simp add: f)
qed

lemma grouped_fold: "grouped m fs \<Longrightarrow> grouped (fold (group_step meta) gs m) (fs @ gs)"
proof (induction gs arbitrary: m fs)
  case Nil
  then show ?case by simp
next
  case (Cons g gs)
  from Cons.IH[OF grouped_step[OF Cons.prems, of meta g]] show ?case by simp
qed

lemma grouped_group_rules: "grouped (group_rules meta fs) fs"
  using grouped_fold[of "[]" "[]" meta fs] by (simp add: group_rules_def grouped_def)

subsection \<open>Sections of the assembled document\<close>

lemma consistent_by_number: "consistent by_number"
  by (auto simp: consistent_def by_number_def)

lemma s_number_sort_and_assign [simp]: "s_number (sort_and_assign cmp s) = s_number s"
  by (simp add: sort_and_assign_def)

lemma grouped_numbers:
  assumes "grouped m fs"
  shows "map s_number (map (sort_and_assign cmp) (map_values m)) = map fst m"
  using assms by (auto simp: grouped_def map_values_def)

lemma assemble_numbers_mset:
  "mset (map s_number (assemble cmp meta fs)) = mset (map fst (group_rules meta fs))"
proof -
  have "mset (map s_number (assemble cmp meta fs))
      = image_mset s_number (mset (map (sort_and_assign cmp) (map_values (group_rules meta fs))))"
    by (simp only: assemble_def mset_js_sort mset_map)
  also have "\<dots> = mset (map s_number (map (sort_and_assign cmp) (map_values (group_rules meta fs))))"
    by (simp only: mset_map)
  finally show ?thesis
    by (simp only: grouped_numbers[OF grouped_group_rules])
qed

lemma assemble_numbers_distinct: "distinct (map s_number (assemble cmp meta fs))"
proof -
  have "distinct (map fst (group_rules meta fs))"
    using grouped_group_rules[of meta fs] by (simp add: grouped_def)
  then show ?thesis
    using assemble_numbers_mset[of cmp meta fs] by (metis mset_eq_imp_distinct_iff)
qed

lemma assemble_numbers_set: "set (map s_number (assemble cmp meta fs)) = fst ` set fs"
proof -
  have "set (map s_number (assemble cmp meta fs)) = set (map fst (group_rules meta fs))"
    using assemble_numbers_mset[of cmp meta fs] by (metis set_mset_mset)
  then show ?thesis
    using grouped_group_rules[of meta fs] by (simp add: grouped_def)
qed

lemma assemble_numbers_sorted: "sorted_wrt (<) (map s_number (assemble cmp meta fs))"
proof -
  have "sorted_wrt (\<lambda>a b. by_number a b \<le> 0) (assemble cmp meta fs)"
    unfolding assemble_def by (rule sorted_js_sort[OF consistent_by_number])
  then have "sorted_wrt (\<lambda>a b. s_number a \<le> s_number b) (assemble cmp meta fs)"
    by (simp add: by_number_def)
  then have "sorted (map s_number (assemble cmp meta fs))"
    by (simp add: sorted_map)
  with assemble_numbers_distinct show ?thesis
    by (simp add: strict_sorted_iff)
qed

lemma assemble_section:
  assumes "s \<in> set (assemble cmp meta fs)"
  shows "s_rules s = assign_ids (s_number s) (js_sort (by_title cmp) (rules_of (s_number s) fs))"
    and "s_number s \<in> fst ` set fs"
proof -
  from assms obtain k g where kg: "(k, g) \<in> set (group_rules meta fs)" "s = sort_and_assign cmp g"
    by (auto simp: assemble_def set_js_sort map_values_def)
  with grouped_group_rules[of meta fs] have g: "s_number g = k" "s_rules g = rules_of k fs"
    by (auto simp: grouped_def)
  show "s_rules s = assign_ids (s_number s) (js_sort (by_title cmp) (rules_of (s_number s) fs))"
    by (simp add: kg(2) g sort_and_assign_def)
  from kg(1) have "k \<in> fst ` set (group_rules meta fs)" by force
  then show "s_number s \<in> fst ` set fs"
    using grouped_group_rules[of meta fs] by (simp add: grouped_def kg(2) g)
qed

lemma length_assign_ids [simp]: "length (assign_ids n rs) = length rs"
  by (simp add: assign_ids_def)

lemma nth_assign_ids:
  "i < length rs \<Longrightarrow> assign_ids n rs ! i = (rs ! i)\<lparr>r_id := Some (rule_id n i), r_subsection := Some (i + 1)\<rparr>"
  by (simp add: assign_ids_def nth_enumerate_eq)

lemma rules_of_nonempty: "n \<in> fst ` set fs \<Longrightarrow> rules_of n fs \<noteq> []"
  by (auto simp: rules_of_def filter_empty_conv)

lemma assemble_rules_nonempty:
  assumes "s \<in> set (assemble cmp meta fs)"
  shows "s_rules s \<noteq> []"
proof -
  have "length (s_rules s) = length (rules_of (s_number s) fs)"
    by (simp add: assemble_section(1)[OF assms] length_js_sort)
  with rules_of_nonempty[OF assemble_section(2)[OF assms]] show ?thesis by auto
qed

text \<open>
  Claim C2. The section numbers of the assembled document are strictly increasing and are
  exactly the section numbers of the input rule files; every section has at least one rule,
  and a number that only the metadata map knows does not appear.
\<close>

theorem assemble_section_numbers:
  "sorted_wrt (<) (map s_number (assemble cmp meta fs)) \<and>
   set (map s_number (assemble cmp meta fs)) = fst ` set fs \<and>
   (\<forall>s \<in> set (assemble cmp meta fs). s_rules s \<noteq> []) \<and>
   (\<forall>n. map_has meta n \<and> n \<notin> fst ` set fs \<longrightarrow> n \<notin> set (map s_number (assemble cmp meta fs)))"
  using assemble_numbers_sorted[of cmp meta fs] assemble_numbers_set[of cmp meta fs]
    assemble_rules_nonempty[of _ cmp meta fs]
  by blast

theorem assemble_section_numbers_witness:
  "map_has [(5, sample_meta ''Unused'')] 5 \<and>
   5 \<notin> set (map s_number (assemble base_compare [(5, sample_meta ''Unused'')]
                [(2, sample_rule ''B''), (1, sample_rule ''A'')])) \<and>
   set (map s_number (assemble base_compare [(5, sample_meta ''Unused'')]
                [(2, sample_rule ''B''), (1, sample_rule ''A'')])) = {1, 2} \<and>
   sorted_wrt (<) (map s_number (assemble base_compare [(5, sample_meta ''Unused'')]
                [(2, sample_rule ''B''), (1, sample_rule ''A'')]))"
  using assemble_section_numbers[of base_compare "[(5, sample_meta ''Unused'')]"
      "[(2, sample_rule ''B''), (1, sample_rule ''A'')]"]
  by (auto simp: map_has_def)

subsection \<open>Rule ids\<close>

lemma takeWhile_sep: "c \<notin> set a \<Longrightarrow> takeWhile (\<lambda>x. x \<noteq> c) (a @ c # b) = a"
  by (induction a) auto

lemma dropWhile_sep: "c \<notin> set a \<Longrightarrow> dropWhile (\<lambda>x. x \<noteq> c) (a @ c # b) = c # b"
  by (induction a) auto

lemma split_at_sep:
  assumes "c \<notin> set a" "c \<notin> set a'" "a @ c # b = a' @ c # b'"
  shows "a = a' \<and> b = b'"
  using takeWhile_sep[OF assms(1), of b] takeWhile_sep[OF assms(2), of b']
    dropWhile_sep[OF assms(1), of b] dropWhile_sep[OF assms(2), of b'] assms(3)
  by simp

lemma show_nat_no_sep:
  "CHR ''.'' \<notin> set (show_nat n)" "CHR '' '' \<notin> set (show_nat n)" "CHR 10 \<notin> set (show_nat n)"
  "CHR ''#'' \<notin> set (show_nat n)"
proof -
  have "c \<noteq> CHR ''.'' \<and> c \<noteq> CHR '' '' \<and> c \<noteq> CHR 10 \<and> c \<noteq> CHR ''#''" if "c \<in> set (show_nat n)" for c
  proof -
    from show_nat_digits[OF that] obtain d where "d < 10" "c = digit d" by auto
    with digit_not_sep[of d] show ?thesis by simp
  qed
  then show "CHR ''.'' \<notin> set (show_nat n)" "CHR '' '' \<notin> set (show_nat n)" "CHR 10 \<notin> set (show_nat n)"
    "CHR ''#'' \<notin> set (show_nat n)"
    by blast+
qed

lemma rule_id_inj: "rule_id n i = rule_id n' i' \<Longrightarrow> n = n' \<and> i = i'"
proof -
  assume "rule_id n i = rule_id n' i'"
  then have "show_nat n @ CHR ''.'' # show_nat (i + 1) = show_nat n' @ CHR ''.'' # show_nat (i' + 1)"
    by (simp add: rule_id_def)
  from split_at_sep[OF show_nat_no_sep(1) show_nat_no_sep(1) this]
  show ?thesis by (auto dest: show_nat_inj)
qed

lemma ids_assign_ids: "map r_id (assign_ids n rs) = map (\<lambda>i. Some (rule_id n i)) [0..<length rs]"
  by (rule nth_equalityI) (simp_all add: nth_assign_ids)

lemma distinct_section_ids:
  assumes "distinct (map s_number ss)"
    and "\<forall>s \<in> set ss. \<exists>rs. s_rules s = assign_ids (s_number s) rs"
  shows "distinct (map r_id (concat (map s_rules ss)))"
  using assms
proof (induction ss)
  case Nil
  then show ?case by simp
next
  case (Cons s ss)
  from Cons.prems(2) obtain rs where rs: "s_rules s = assign_ids (s_number s) rs" by auto
  have d1: "distinct (map r_id (s_rules s))"
    by (simp add: rs ids_assign_ids distinct_map inj_on_def rule_id_inj)
  have d2: "distinct (map r_id (concat (map s_rules ss)))"
    using Cons by simp
  have "set (map r_id (s_rules s)) \<inter> set (map r_id (concat (map s_rules ss))) = {}"
  proof (rule ccontr)
    assume "\<not> ?thesis"
    then obtain x where x: "x \<in> set (map r_id (s_rules s))" "x \<in> set (map r_id (concat (map s_rules ss)))"
      by blast
    from x(1) obtain i where i: "x = Some (rule_id (s_number s) i)"
      by (auto simp: rs ids_assign_ids)
    from x(2) obtain t where t: "t \<in> set ss" "x \<in> set (map r_id (s_rules t))" by auto
    from Cons.prems(2) t(1) obtain rt where "s_rules t = assign_ids (s_number t) rt" by auto
    with t(2) obtain j where "x = Some (rule_id (s_number t) j)"
      by (auto simp: ids_assign_ids)
    with i have "s_number s = s_number t" by (auto dest: rule_id_inj)
    with t(1) Cons.prems(1) show False by auto
  qed
  with d1 d2 show ?case by simp
qed

lemma assemble_ids_distinct: "distinct (map r_id (concat (map s_rules (assemble cmp meta fs))))"
  by (rule distinct_section_ids[OF assemble_numbers_distinct]) (blast dest: assemble_section(1))

subsection \<open>The sample collation is consistent\<close>




subsection \<open>Sorted positions and ids\<close>




subsection \<open>Section metadata and the merge\<close>

lemma titled_push:
  assumes "titled sm m fs" "set fs \<subseteq> set fs'"
  shows "titled sm (push_rule n r m) fs'"
  unfolding titled_def
proof (intro ballI, clarify)
  fix k s
  assume "(k, s) \<in> set (push_rule n r m)"
  then obtain s0 where s0: "(k, s0) \<in> set m" "s = s0 \<or> s = s0\<lparr>s_rules := s_rules s0 @ [r]\<rparr>"
    by (auto simp: push_rule_def split: if_splits)
  from assms(1) s0(1) obtain r0 where "(k, r0) \<in> set fs"
      "s_title s0 = m_title (meta_or_default sm k r0)"
      "s_impact s0 = m_impact (meta_or_default sm k r0)"
      "s_introduction s0 = m_introduction (meta_or_default sm k r0)"
    unfolding titled_def by blast
  with s0(2) assms(2) show "\<exists>r. (k, r) \<in> set fs' \<and>
      s_title s = m_title (meta_or_default sm k r) \<and>
      s_impact s = m_impact (meta_or_default sm k r) \<and>
      s_introduction s = m_introduction (meta_or_default sm k r)"
    by (intro exI[of _ r0]) auto
qed

lemma titled_append: "titled sm m fs \<Longrightarrow> titled sm m' fs \<Longrightarrow> titled sm (m @ m') fs"
  unfolding titled_def by auto

lemma titled_step:
  assumes "titled sm m fs"
  shows "titled sm (group_step sm f m) (fs @ [f])"
proof -
  obtain n r where f: "f = (n, r)" by (cases f)
  have sub: "set fs \<subseteq> set (fs @ [f])" by auto
  show ?thesis
  proof (cases "map_has m n")
    case True
    then have "group_step sm f m = push_rule n r m"
      by (simp add: group_step_def f)
    with titled_push[OF assms sub] show ?thesis by simp
  next
    case False
    let ?s = "\<lparr>s_number = n, s_title = m_title (meta_or_default sm n r),
               s_impact = m_impact (meta_or_default sm n r),
               s_introduction = m_introduction (meta_or_default sm n r), s_rules = []\<rparr>"
    from False have n: "n \<notin> fst ` set m" by (simp add: map_has_def)
    have gs: "group_step sm f m = push_rule n r (m @ [(n, ?s)])"
      using False by (simp add: group_step_def f Let_def set_map_set_new[OF n])
    have "titled sm [(n, ?s)] (fs @ [f])"
      unfolding titled_def f by auto
    moreover have "titled sm m (fs @ [f])"
      using assms unfolding titled_def by auto
    ultimately have "titled sm (m @ [(n, ?s)]) (fs @ [f])"
      by (intro titled_append)
    from titled_push[OF this subset_refl] show ?thesis
      by (simp only: gs)
  qed
qed

lemma titled_fold: "titled sm m fs \<Longrightarrow> titled sm (fold (group_step sm) gs m) (fs @ gs)"
proof (induction gs arbitrary: m fs)
  case Nil
  then show ?case by simp
next
  case (Cons g gs)
  from Cons.IH[OF titled_step[OF Cons.prems, of g]] show ?case by simp
qed

lemma titled_group_rules: "titled sm (group_rules sm fs) fs"
  using titled_fold[of sm "[]" "[]" fs] by (simp add: group_rules_def titled_def)

lemma assemble_section_meta:
  assumes "s \<in> set (assemble cmp sm fs)"
  shows "\<exists>r. (s_number s, r) \<in> set fs \<and>
      s_title s = m_title (meta_or_default sm (s_number s) r) \<and>
      s_impact s = m_impact (meta_or_default sm (s_number s) r) \<and>
      s_introduction s = m_introduction (meta_or_default sm (s_number s) r)"
proof -
  from assms obtain k g where kg: "(k, g) \<in> set (group_rules sm fs)" "s = sort_and_assign cmp g"
    by (auto simp: assemble_def set_js_sort map_values_def)
  with grouped_group_rules[of sm fs] have g: "s_number g = k"
    by (auto simp: grouped_def)
  from titled_group_rules[of sm fs] kg(1) show ?thesis
    unfolding titled_def by (auto simp: kg(2) g sort_and_assign_def)
qed

lemma map_of_rev_distinct: "distinct (map fst xs) \<Longrightarrow> map_of (rev xs) = map_of xs"
proof (induction xs)
  case Nil
  then show ?case by simp
next
  case (Cons x xs)
  obtain k v where x: "x = (k, v)" by (cases x)
  from Cons.prems have "map_of xs k = None"
    by (simp add: x map_of_eq_None_iff)
  with Cons show ?case
    by (auto simp: x fun_eq_iff map_add_def split: option.splits)
qed

lemma map_get_merge_sections:
  assumes "distinct (map fst ss)" "distinct (map fst vs)"
  shows "map_get (merge_sections ss vs) n = (case map_get vs n of Some e \<Rightarrow> Some e | None \<Rightarrow> map_get ss n)"
proof -
  have "map_of (merge_sections ss vs) = Map.empty ++ map_of (rev (ss @ vs))"
    unfolding merge_sections_def new_Map_def using new_Map_fold[of "ss @ vs" "[]"] by simp
  also have "\<dots> = map_of ss ++ map_of vs"
    by (simp add: map_of_rev_distinct[OF assms(1)] map_of_rev_distinct[OF assms(2)])
  finally show ?thesis
    by (simp add: map_get_def map_add_def split: option.splits)
qed

lemma map_has_merge_sections:
  "map_has (merge_sections ss vs) n = (map_has ss n \<or> map_has vs n)"
  unfolding merge_sections_def new_Map_def map_has_def
  using keys_fold_map_set[of "ss @ vs" "[]"] by auto

text \<open>
  Claim C3. The merged rule list is the shared list followed by the variant list. The merged
  metadata map has the keys of both maps, and for every key the variant's entry when there
  is one, otherwise the shared entry. A variant entry for section 3 is the entry of the merged
  map, and section 3 of the assembled document has its title, impact and introduction.
\<close>

theorem merge_shared_then_variant:
  assumes "distinct (map fst sharedSections)" and "distinct (map fst versionSections)"
  shows "merge_rules sharedRules versionRules = sharedRules @ versionRules \<and>
    (\<forall>n. map_has (merge_sections sharedSections versionSections) n =
           (map_has sharedSections n \<or> map_has versionSections n)) \<and>
    (\<forall>n. map_get (merge_sections sharedSections versionSections) n =
           (case map_get versionSections n of Some e \<Rightarrow> Some e | None \<Rightarrow> map_get sharedSections n)) \<and>
    (\<forall>e. map_get versionSections 3 = Some e \<longrightarrow>
       map_get (merge_sections sharedSections versionSections) 3 = Some e \<and>
       (\<forall>s \<in> set (assemble cmp (merge_sections sharedSections versionSections)
                      (merge_rules sharedRules versionRules)).
           s_number s = 3 \<longrightarrow>
             s_title s = m_title e \<and> s_impact s = m_impact e \<and> s_introduction s = m_introduction e))"
proof (intro conjI allI impI ballI)
  show "merge_rules sharedRules versionRules = sharedRules @ versionRules"
    by (simp add: merge_rules_def)
next
  fix n
  show "map_has (merge_sections sharedSections versionSections) n =
           (map_has sharedSections n \<or> map_has versionSections n)"
    by (rule map_has_merge_sections)
next
  fix n
  show "map_get (merge_sections sharedSections versionSections) n =
           (case map_get versionSections n of Some e \<Rightarrow> Some e | None \<Rightarrow> map_get sharedSections n)"
    by (rule map_get_merge_sections[OF assms])
next
  fix e
  assume e: "map_get versionSections 3 = Some e"
  then show m: "map_get (merge_sections sharedSections versionSections) 3 = Some e"
    by (simp add: map_get_merge_sections[OF assms])
  fix s
  assume s: "s \<in> set (assemble cmp (merge_sections sharedSections versionSections)
                      (merge_rules sharedRules versionRules))" "s_number s = 3"
  from assemble_section_meta[OF s(1)] m s(2)
  show "s_title s = m_title e" "s_impact s = m_impact e" "s_introduction s = m_introduction e"
    by (auto simp: meta_or_default_def)
qed

theorem merge_shared_then_variant_witness:
  "distinct (map fst [(3::nat, sample_meta ''Shared three'')]) \<and>
   distinct (map fst [(3::nat, sample_meta ''Variant three'')]) \<and>
   map_get [(3::nat, sample_meta ''Variant three'')] 3 = Some (sample_meta ''Variant three'') \<and>
   map_get (merge_sections [(3, sample_meta ''Shared three'')] [(3, sample_meta ''Variant three'')]) 3 =
     Some (sample_meta ''Variant three'') \<and>
   map s_title (assemble base_compare
       (merge_sections [(3, sample_meta ''Shared three'')] [(3, sample_meta ''Variant three'')])
       (merge_rules [(3, sample_rule ''A'')] [])) = [''Variant three'']"
  using merge_shared_then_variant[of "[(3, sample_meta ''Shared three'')]" "[(3, sample_meta ''Variant three'')]"
      "[(3, sample_rule ''A'')]" "[]" base_compare]
  by (simp add: map_get_def merge_sections_def new_Map_def assemble_def merge_rules_def group_rules_def
      group_step_def map_has_def meta_or_default_def push_rule_def map_values_def sort_and_assign_def
      js_sort_def sample_meta_def)

subsection \<open>Extraction\<close>

lemma extract_example_code: "tc \<in> set (extract_example file rule e) \<Longrightarrow> trim (tc_code tc) \<noteq> []"
  by (auto simp: extract_example_def split: if_splits option.splits)

lemma extract_file_code: "tc \<in> set (extract_file parse dir file) \<Longrightarrow> trim (tc_code tc) \<noteq> []"
  by (auto simp: extract_file_def split: sum.splits dest: extract_example_code)

lemma extractFromDir_code: "tc \<in> set (extractFromDir parse readdir dir) \<Longrightarrow> trim (tc_code tc) \<noteq> []"
  by (auto simp: extractFromDir_def split: option.splits dest: extract_file_code)

text \<open>
  Claim C5. An example whose code is empty or only white space gives no test case, whatever
  its label; so every test case that the extractor emits, from one directory or from all of
  them, has code that is not blank.
\<close>

theorem extractor_skips_empty_code:
  "(trim (e_code e) = [] \<longrightarrow> extract_example file rule e = []) \<and>
   (\<forall>tc \<in> set (extractFromDir parse readdir dir). trim (tc_code tc) \<noteq> []) \<and>
   (\<forall>tc \<in> set (extractTests parse readdir). trim (tc_code tc) \<noteq> [])"
proof (intro conjI impI ballI)
  assume "trim (e_code e) = []"
  then show "extract_example file rule e = []" by (simp add: extract_example_def)
next
  fix tc assume "tc \<in> set (extractFromDir parse readdir dir)"
  then show "trim (tc_code tc) \<noteq> []" by (rule extractFromDir_code)
next
  fix tc assume "tc \<in> set (extractTests parse readdir)"
  then show "trim (tc_code tc) \<noteq> []"
    by (auto simp: extractTests_def dest: extractFromDir_code)
qed

theorem extractor_skips_empty_code_witness:
  "trim (e_code (sample_example ''Incorrect (old pattern)'' [CHR '' '', NL, CHR 9])) = [] \<and>
   classify (e_label (sample_example ''Incorrect (old pattern)'' [CHR '' '', NL, CHR 9])) = Some Bad \<and>
   extract_example ''rule.md'' (sample_rule ''T'') (sample_example ''Incorrect (old pattern)'' [CHR '' '', NL, CHR 9]) = [] \<and>
   map tc_code (extractFromDir
      (sample_parser ((sample_rule ''T'')\<lparr>r_examples :=
          [sample_example ''Incorrect'' ''  '', sample_example ''Correct'' ''ok()'']\<rparr>))
      (sample_fs [''rule.md'']) SHARED_RULES_DIR) = [''ok()'']"
  using extractor_skips_empty_code[of "sample_example ''Incorrect (old pattern)'' [CHR '' '', NL, CHR 9]"
      "''rule.md''" "sample_rule ''T''"]
  by (simp add: sample_example_def trim_def is_space_def NL_def classify_def regex_test_def
      toLowerCase_def to_lower_def sublist_code extractFromDir_def sample_fs_def extract_rule_files_def
      endsWith_def startsWith_def suffix_to_prefix extract_file_def sample_parser_def join_def
      SHARED_RULES_DIR_def sample_rule_def extract_example_def or_else_def)

subsection \<open>Polarity of a label\<close>

lemma to_upper_lower: "to_upper (to_lower c) = to_upper c"
  by (simp add: to_lower_def to_upper_def split: if_splits)

lemma to_lower_upper: "to_lower (to_upper c) = to_lower c"
  by (simp add: to_lower_def to_upper_def split: if_splits)

lemma sublist_map: "sublist xs ys \<Longrightarrow> sublist (map f xs) (map f ys)"
  unfolding sublist_def by (metis map_append)

lemma sublist_fold_case:
  assumes "map to_lower w = w"
  shows "sublist (map to_upper w) (map to_upper s) \<longleftrightarrow> sublist w (map to_lower s)"
proof
  assume "sublist (map to_upper w) (map to_upper s)"
  from sublist_map[OF this, of to_lower] show "sublist w (map to_lower s)"
    by (simp add: to_lower_upper o_def assms)
next
  assume "sublist w (map to_lower s)"
  from sublist_map[OF this, of to_upper] show "sublist (map to_upper w) (map to_upper s)"
    by (simp add: to_upper_lower o_def)
qed

lemma regex_fold_case:
  assumes "\<forall>w \<in> set ws. map to_lower w = w"
  shows "regex_test_i ws s \<longleftrightarrow> regex_test ws (toLowerCase s)"
  using assms by (auto simp: regex_test_i_def regex_test_def toLowerCase_def list_ex_iff sublist_fold_case)

lemma lower_words:
  "\<forall>w \<in> set [''incorrect'', ''wrong'', ''bad'']. map to_lower w = w"
  "\<forall>w \<in> set [''incorrect'', ''bad'', ''wrong'']. map to_lower w = w"
  "\<forall>w \<in> set [''correct'', ''good'', ''example'', ''usage'']. map to_lower w = w"
  "\<forall>w \<in> set [''correct'', ''good'', ''usage'', ''example'', ''implementation'']. map to_lower w = w"
  by (simp_all add: to_lower_def)

lemma classify_bad_iff: "classify (e_label e) = Some Bad \<longleftrightarrow> has_bad_label e"
  unfolding has_bad_label_def regex_fold_case[OF lower_words(1)]
  by (auto simp: classify_def Let_def regex_test_def)

lemma classify_good_iff:
  "classify (e_label e) = Some Good \<longleftrightarrow>
     \<not> has_bad_label e \<and> regex_test_i [''correct'', ''good'', ''example'', ''usage''] (e_label e)"
  unfolding has_bad_label_def regex_fold_case[OF lower_words(1)] regex_fold_case[OF lower_words(3)]
  by (auto simp: classify_def Let_def regex_test_def)

text \<open>
  Claim C4 says that the extractor classifies a label as the validator does. The checks for a
  bad label agree (\<open>classify_bad_iff\<close>), but the validator's good pattern has the word
  \<^verbatim>\<open>implementation\<close> and the extractor's has not: an example labelled "Implementation", with
  code, counts as a good example for the validator and gives no test case.
\<close>

theorem extractor_drops_implementation_label:
  "trim (e_code implementation_example) \<noteq> [] \<and>
   has_good_label implementation_example \<and>
   \<not> has_bad_label implementation_example \<and>
   classify (e_label implementation_example) = None \<and>
   extract_example ''rule.md'' (sample_rule ''T'') implementation_example = []"
  by (simp add: implementation_example_def sample_example_def has_good_label_def has_bad_label_def
      regex_test_i_def to_upper_def classify_def regex_test_def toLowerCase_def to_lower_def
      sublist_code prefix_code extract_example_def trim_def is_space_def)

subsection \<open>Validation\<close>

lemma validate_allErrors:
  "allErrors (validate parse readdir) =
     fst (validateDir parse readdir SHARED_RULES_DIR ''shared'') @
     fst (validateDir parse readdir ''skills/angular-best-practices-v20+/rules'' ''v20+'') @
     fst (validateDir parse readdir ''skills/angular-best-practices-legacy/rules'' ''legacy'')"
  by (simp add: validate_def VERSIONS_def Let_def)

lemma polarity_iff: "has_bad_label e \<or> has_good_label e \<longleftrightarrow> signals_polarity (e_label e)"
  unfolding has_bad_label_def has_good_label_def
    regex_fold_case[OF lower_words(1)] regex_fold_case[OF lower_words(4)]
  by (auto simp: regex_test_def signals_polarity_def bad_words_def good_words_def)

lemma validateRule_empty_iff: "validateRule rule file source = [] \<longleftrightarrow> checklist_ok rule"
  using polarity_iff
  by (auto simp: validateRule_def checklist_ok_def Let_def list_ex_iff filter_empty_conv validImpacts_def)

lemma in_validateDir:
  "e \<in> set (fst (validateDir parse readdir dir source)) \<longleftrightarrow>
     (\<exists>files f. readdir dir = Some files \<and> f \<in> set files \<and> rule_file_name f \<and>
        (case parse (join dir f) of
           Inr p \<Rightarrow> e \<in> set (validateRule (snd p) f source)
         | Inl m \<Rightarrow> e = violation f source (''Parse error: '' @ m)))"
proof (cases "readdir dir")
  case None
  then show ?thesis by (simp add: validateDir_def)
next
  case (Some files)
  have "e \<in> set (validate_file parse dir source f) \<longleftrightarrow>
        (case parse (join dir f) of
           Inr p \<Rightarrow> e \<in> set (validateRule (snd p) f source)
         | Inl m \<Rightarrow> e = violation f source (''Parse error: '' @ m))" for f
    by (simp add: validate_file_def violation_def split: sum.splits)
  then show ?thesis
    by (auto simp: Some validateDir_def Let_def validate_rule_files_def rule_file_name_def
        endsWith_def startsWith_def)
qed

lemma in_allErrors:
  "e \<in> set (allErrors (validate parse readdir)) \<longleftrightarrow>
     (\<exists>c \<in> set corpora. e \<in> set (fst (validateDir parse readdir (fst c) (snd c))))"
  by (auto simp: validate_allErrors corpora_def SHARED_RULES_DIR_def)

lemma file_clean_iff:
  "(\<forall>e. \<not> (case parse (join dir f) of
           Inr p \<Rightarrow> e \<in> set (validateRule (snd p) f source)
         | Inl m \<Rightarrow> e = violation f source (''Parse error: '' @ m))) \<longleftrightarrow>
   (\<exists>p. parse (join dir f) = Inr p \<and> checklist_ok (snd p))"
proof (cases "parse (join dir f)")
  case (Inl m)
  then show ?thesis by simp
next
  case (Inr p)
  have "(\<forall>e. e \<notin> set (validateRule (snd p) f source)) \<longleftrightarrow> validateRule (snd p) f source = []"
    by (cases "validateRule (snd p) f source") auto
  then show ?thesis by (simp add: Inr validateRule_empty_iff)
qed

lemma exit_zero_iff:
  "exit_status (validate parse readdir) = 0 \<longleftrightarrow>
     (\<forall>c \<in> set corpora. \<forall>files f. readdir (fst c) = Some files \<and> f \<in> set files \<and> rule_file_name f \<longrightarrow>
        (\<exists>p. parse (join (fst c) f) = Inr p \<and> checklist_ok (snd p)))"
proof -
  have "exit_status (validate parse readdir) = 0 \<longleftrightarrow> set (allErrors (validate parse readdir)) = {}"
    by (simp add: validate_def Let_def)
  also have "\<dots> \<longleftrightarrow> (\<forall>e. e \<notin> set (allErrors (validate parse readdir)))"
    by auto
  also have "\<dots> \<longleftrightarrow> (\<forall>c \<in> set corpora. \<forall>files f. readdir (fst c) = Some files \<and> f \<in> set files \<and> rule_file_name f \<longrightarrow>
        (\<forall>e. \<not> (case parse (join (fst c) f) of
           Inr p \<Rightarrow> e \<in> set (validateRule (snd p) f (snd c))
         | Inl m \<Rightarrow> e = violation f (snd c) (''Parse error: '' @ m))))"
    unfolding in_allErrors in_validateDir by (simp only: bex_simps ball_simps not_ex not_all de_Morgan_conj) meson
  finally show ?thesis
    unfolding file_clean_iff .
qed

text \<open>
  Claim C6. A parsed rule has no violation exactly when it passes the checklist, and each check
  of the list (title, explanation, examples, code examples, polarity, impact) reports its own
  violation whatever the others find. In a run, every violation of every rule file that
  parses and a parse error for every rule file that does not, in the shared corpus and in
  every variant corpus, are among the errors, and the errors are nothing else. The exit status
  is zero exactly when every rule file of every corpus parses to a rule that passes the
  checklist, and it is not zero exactly when there is an error.
\<close>

theorem validator_collects_all_violations:
  "(validateRule rule file source = [] \<longleftrightarrow> checklist_ok rule) \<and>
   (trim (r_title rule) = [] \<longleftrightarrow>
      violation file source ''Missing or empty title'' \<in> set (validateRule rule file source)) \<and>
   (trim (r_explanation rule) = [] \<longleftrightarrow>
      violation file source ''Missing or empty explanation'' \<in> set (validateRule rule file source)) \<and>
   (r_examples rule = [] \<longleftrightarrow>
      violation file source ''Missing examples'' \<in> set (validateRule rule file source)) \<and>
   (r_examples rule \<noteq> [] \<and> (\<forall>e \<in> set (r_examples rule). trim (e_code e) = []) \<longleftrightarrow>
      violation file source ''Missing code examples'' \<in> set (validateRule rule file source)) \<and>
   ((\<exists>e \<in> set (r_examples rule). trim (e_code e) \<noteq> []) \<and>
    (\<forall>e \<in> set (r_examples rule). trim (e_code e) \<noteq> [] \<longrightarrow> \<not> signals_polarity (e_label e)) \<longleftrightarrow>
      violation file source ''Missing bad/incorrect or good/correct examples''
        \<in> set (validateRule rule file source)) \<and>
   (r_impact rule \<notin> {''CRITICAL'', ''HIGH'', ''MEDIUM-HIGH'', ''MEDIUM'', ''LOW-MEDIUM'', ''LOW''} \<longleftrightarrow>
      violation file source (''Invalid impact: '' @ r_impact rule) \<in> set (validateRule rule file source)) \<and>
   (\<forall>c \<in> set corpora. \<forall>files f p.
      readdir (fst c) = Some files \<and> f \<in> set files \<and> rule_file_name f \<and> parse (join (fst c) f) = Inr p \<longrightarrow>
        set (validateRule (snd p) f (snd c)) \<subseteq> set (allErrors (validate parse readdir))) \<and>
   (\<forall>c \<in> set corpora. \<forall>files f m.
      readdir (fst c) = Some files \<and> f \<in> set files \<and> rule_file_name f \<and> parse (join (fst c) f) = Inl m \<longrightarrow>
        violation f (snd c) (''Parse error: '' @ m) \<in> set (allErrors (validate parse readdir))) \<and>
   (\<forall>e \<in> set (allErrors (validate parse readdir)). \<exists>c \<in> set corpora. \<exists>files f.
      readdir (fst c) = Some files \<and> f \<in> set files \<and> rule_file_name f \<and>
      (case parse (join (fst c) f) of
         Inr p \<Rightarrow> e \<in> set (validateRule (snd p) f (snd c))
       | Inl m \<Rightarrow> e = violation f (snd c) (''Parse error: '' @ m))) \<and>
   (exit_status (validate parse readdir) = 0 \<longleftrightarrow>
      (\<forall>c \<in> set corpora. \<forall>files f.
         readdir (fst c) = Some files \<and> f \<in> set files \<and> rule_file_name f \<longrightarrow>
           (\<exists>p. parse (join (fst c) f) = Inr p \<and> checklist_ok (snd p)))) \<and>
   (exit_status (validate parse readdir) \<noteq> 0 \<longleftrightarrow> allErrors (validate parse readdir) \<noteq> []) \<and>
   exit_status (validate parse readdir) \<le> 1"
proof (intro conjI)
  show "validateRule rule file source = [] \<longleftrightarrow> checklist_ok rule"
    by (rule validateRule_empty_iff)
  show "trim (r_title rule) = [] \<longleftrightarrow>
      violation file source ''Missing or empty title'' \<in> set (validateRule rule file source)"
    by (simp add: validateRule_def violation_def Let_def)
  show "trim (r_explanation rule) = [] \<longleftrightarrow>
      violation file source ''Missing or empty explanation'' \<in> set (validateRule rule file source)"
    by (simp add: validateRule_def violation_def Let_def)
  show "r_examples rule = [] \<longleftrightarrow>
      violation file source ''Missing examples'' \<in> set (validateRule rule file source)"
    by (simp add: validateRule_def violation_def Let_def)
  show "r_examples rule \<noteq> [] \<and> (\<forall>e \<in> set (r_examples rule). trim (e_code e) = []) \<longleftrightarrow>
      violation file source ''Missing code examples'' \<in> set (validateRule rule file source)"
    by (auto simp: validateRule_def violation_def Let_def filter_empty_conv)
  show "(\<exists>e \<in> set (r_examples rule). trim (e_code e) \<noteq> []) \<and>
    (\<forall>e \<in> set (r_examples rule). trim (e_code e) \<noteq> [] \<longrightarrow> \<not> signals_polarity (e_label e)) \<longleftrightarrow>
      violation file source ''Missing bad/incorrect or good/correct examples''
        \<in> set (validateRule rule file source)"
    using polarity_iff
    by (auto simp: validateRule_def violation_def Let_def filter_empty_conv list_ex_iff)
  show "r_impact rule \<notin> {''CRITICAL'', ''HIGH'', ''MEDIUM-HIGH'', ''MEDIUM'', ''LOW-MEDIUM'', ''LOW''} \<longleftrightarrow>
      violation file source (''Invalid impact: '' @ r_impact rule) \<in> set (validateRule rule file source)"
    by (simp add: validateRule_def violation_def Let_def validImpacts_def)
  show "\<forall>c \<in> set corpora. \<forall>files f p.
      readdir (fst c) = Some files \<and> f \<in> set files \<and> rule_file_name f \<and> parse (join (fst c) f) = Inr p \<longrightarrow>
        set (validateRule (snd p) f (snd c)) \<subseteq> set (allErrors (validate parse readdir))"
  proof (intro ballI allI impI subsetI)
    fix c files f p e
    assume c: "c \<in> set corpora"
      and h: "readdir (fst c) = Some files \<and> f \<in> set files \<and> rule_file_name f \<and> parse (join (fst c) f) = Inr p"
      and e: "e \<in> set (validateRule (snd p) f (snd c))"
    from h e have "e \<in> set (fst (validateDir parse readdir (fst c) (snd c)))"
      unfolding in_validateDir by (intro exI[of _ files] exI[of _ f]) simp
    with c show "e \<in> set (allErrors (validate parse readdir))"
      unfolding in_allErrors by blast
  qed
  show "\<forall>c \<in> set corpora. \<forall>files f m.
      readdir (fst c) = Some files \<and> f \<in> set files \<and> rule_file_name f \<and> parse (join (fst c) f) = Inl m \<longrightarrow>
        violation f (snd c) (''Parse error: '' @ m) \<in> set (allErrors (validate parse readdir))"
  proof (intro ballI allI impI)
    fix c files f m
    assume c: "c \<in> set corpora"
      and h: "readdir (fst c) = Some files \<and> f \<in> set files \<and> rule_file_name f \<and> parse (join (fst c) f) = Inl m"
    from h have "violation f (snd c) (''Parse error: '' @ m) \<in> set (fst (validateDir parse readdir (fst c) (snd c)))"
      unfolding in_validateDir by (intro exI[of _ files] exI[of _ f]) simp
    with c show "violation f (snd c) (''Parse error: '' @ m) \<in> set (allErrors (validate parse readdir))"
      unfolding in_allErrors by blast
  qed
  show "\<forall>e \<in> set (allErrors (validate parse readdir)). \<exists>c \<in> set corpora. \<exists>files f.
      readdir (fst c) = Some files \<and> f \<in> set files \<and> rule_file_name f \<and>
      (case parse (join (fst c) f) of
         Inr p \<Rightarrow> e \<in> set (validateRule (snd p) f (snd c))
       | Inl m \<Rightarrow> e = violation f (snd c) (''Parse error: '' @ m))"
  proof
    fix e assume "e \<in> set (allErrors (validate parse readdir))"
    then obtain c where c: "c \<in> set corpora" "e \<in> set (fst (validateDir parse readdir (fst c) (snd c)))"
      unfolding in_allErrors by auto
    from c(2) obtain files f where "readdir (fst c) = Some files \<and> f \<in> set files \<and> rule_file_name f \<and>
      (case parse (join (fst c) f) of
         Inr p \<Rightarrow> e \<in> set (validateRule (snd p) f (snd c))
       | Inl m \<Rightarrow> e = violation f (snd c) (''Parse error: '' @ m))"
      unfolding in_validateDir by auto
    with c(1) show "\<exists>c \<in> set corpora. \<exists>files f.
      readdir (fst c) = Some files \<and> f \<in> set files \<and> rule_file_name f \<and>
      (case parse (join (fst c) f) of
         Inr p \<Rightarrow> e \<in> set (validateRule (snd p) f (snd c))
       | Inl m \<Rightarrow> e = violation f (snd c) (''Parse error: '' @ m))"
      by (intro bexI[of _ c] exI[of _ files] exI[of _ f])
  qed
  show "exit_status (validate parse readdir) = 0 \<longleftrightarrow>
      (\<forall>c \<in> set corpora. \<forall>files f.
         readdir (fst c) = Some files \<and> f \<in> set files \<and> rule_file_name f \<longrightarrow>
           (\<exists>p. parse (join (fst c) f) = Inr p \<and> checklist_ok (snd p)))"
    by (rule exit_zero_iff)
  show "exit_status (validate parse readdir) \<noteq> 0 \<longleftrightarrow> allErrors (validate parse readdir) \<noteq> []"
    by (simp add: validate_def Let_def)
  show "exit_status (validate parse readdir) \<le> 1"
    by (simp add: validate_def Let_def)
qed

theorem validator_collects_all_violations_witness:
  "(''skills/angular-best-practices-legacy/rules'', ''legacy'') \<in> set corpora \<and>
   two_corpora_fs ''skills/angular-best-practices-legacy/rules'' = Some [''broken.md''] \<and>
   rule_file_name ''broken.md'' \<and>
   sample_parser invalid_rule (join ''skills/angular-best-practices-legacy/rules'' ''broken.md'') =
     Inl ''no frontmatter'' \<and>
   violation ''broken.md'' ''legacy'' ''Parse error: no frontmatter''
     \<in> set (allErrors (validate (sample_parser invalid_rule) two_corpora_fs)) \<and>
   map (\<lambda>e. (ve_source e, ve_file e, ve_message e))
       (allErrors (validate (sample_parser invalid_rule) two_corpora_fs)) =
     [(''shared'', ''a.md'', ''Missing or empty title''), (''shared'', ''a.md'', ''Missing examples''),
      (''shared'', ''a.md'', ''Invalid impact: URGENT''),
      (''legacy'', ''broken.md'', ''Parse error: no frontmatter'')] \<and>
   exit_status (validate (sample_parser invalid_rule) two_corpora_fs) = 1"
  using validator_collects_all_violations[of invalid_rule "''a.md''" "''shared''"
      two_corpora_fs "sample_parser invalid_rule"]
  by (simp add: validate_def validateDir_def validate_rule_files_def validate_file_def validateRule_def
      two_corpora_fs_def sample_parser_def invalid_rule_def sample_rule_def SHARED_RULES_DIR_def VERSIONS_def
      endsWith_def startsWith_def suffix_to_prefix join_def trim_def is_space_def validImpacts_def
      corpora_def rule_file_name_def violation_def)

subsection \<open>Rule files of a directory\<close>

lemma validate_extract_rule_files: "validate_rule_files files = extract_rule_files files"
  by (simp add: validate_rule_files_def extract_rule_files_def)

lemma build_rule_files_set:
  "set (build_rule_files files) = set (validate_rule_files files) - {''README.md''}"
  by (auto simp: build_rule_files_def validate_rule_files_def set_js_sort)

text \<open>
  Claim C9 says that the three paths enumerate the same rule files. The validator and the
  extractor do (\<open>validate_extract_rule_files\<close>), but only the build leaves \<^verbatim>\<open>README.md\<close> out
  (\<open>build_rule_files_set\<close>): in a directory with a \<^verbatim>\<open>README.md\<close> the build reads one file
  less than the other two.
\<close>

theorem rule_files_differ_on_readme:
  "build_rule_files [''README.md'', ''a.md''] = [''a.md''] \<and>
   validate_rule_files [''README.md'', ''a.md''] = [''README.md'', ''a.md''] \<and>
   extract_rule_files [''README.md'', ''a.md''] = [''README.md'', ''a.md'']"
  by (simp add: build_rule_files_def validate_rule_files_def extract_rule_files_def endsWith_def
      startsWith_def suffix_to_prefix js_sort_def)

subsection \<open>The id of a test case\<close>

text \<open>
  Claim C10 says that the id of a test case is the file name without its suffix
  \<^verbatim>\<open>.md\<close>. The extractor removes the first occurrence of \<^verbatim>\<open>.md\<close> instead: for the rule
  file \<^verbatim>\<open>a.mdx.md\<close>, parsed to a rule without id, the id is \<^verbatim>\<open>ax.md\<close> and not \<^verbatim>\<open>a.mdx\<close>.
\<close>

theorem extracted_id_removes_first_md:
  "r_id labelled_rule = None \<and>
   extract_rule_files [''a.mdx.md''] = [''a.mdx.md''] \<and>
   map tc_ruleId (extractFromDir (sample_parser labelled_rule) (sample_fs [''a.mdx.md'']) SHARED_RULES_DIR) =
     [''ax.md'']"
  by (simp add: labelled_rule_def sample_rule_def sample_example_def extractFromDir_def sample_fs_def
      extract_rule_files_def endsWith_def startsWith_def suffix_to_prefix extract_file_def
      sample_parser_def join_def SHARED_RULES_DIR_def extract_example_def trim_def is_space_def
      classify_def regex_test_def toLowerCase_def to_lower_def sublist_code)

subsection \<open>The build command\<close>

lemma build_unknown_version:
  assumes "version \<noteq> []" "\<not> startsWith version ''--''"
    and "version \<notin> set (Object_keys VERSIONS)" "version \<notin> set Object_prototype_names"
  shows "build throws [version] =
           ([Unknown_version version, Available_versions [''v20+'', ''legacy'']], 1)"
proof -
  have "map_of VERSIONS version = None"
    using assms(3) by (simp add: Object_keys_def map_of_eq_None_iff)
  then have "VERSIONS_get version = None"
    using assms(4) by (simp add: VERSIONS_get_def)
  then show ?thesis
    using assms(1,2) by (simp add: build_def targetVersion_def Object_keys_def VERSIONS_def)
qed

text \<open>
  Claim C8 says that a variant key outside the configured set is reported as unknown, with
  the valid keys, before any work. That holds for a key that is no property name at all
  (\<open>build_unknown_version\<close>). A name that the object inherits, such as \<^verbatim>\<open>constructor\<close>, is
  not configured and yet passes the test \<^verbatim>\<open>!VERSIONS[version]\<close>: the run calls \<^verbatim>\<open>buildVersion\<close>
  for it and never reports an unknown version.
\<close>

theorem build_inherited_name:
  "map_of VERSIONS ''constructor'' = None \<and>
   VERSIONS_get ''constructor'' = Some Inherited \<and>
   build throws [''constructor''] =
     (if throws ''constructor'' then ([Build_version ''constructor'', Build_failed], 1)
      else ([Build_version ''constructor'', Build_complete], 0))"
  by (simp add: build_def targetVersion_def startsWith_def VERSIONS_get_def VERSIONS_def
      Object_prototype_names_def)

subsection \<open>Lines and headings of the rendered document\<close>

lemma lines_of_ne [simp]: "lines_of s \<noteq> []"
  by (cases s) auto

lemma lines_of_single: "NL \<notin> set s \<Longrightarrow> lines_of s = [s]"
  by (induction s) auto

lemma lines_of_ln: "lines_of (ln a @ b) = lines_of a @ lines_of b"
  by (induction a) (auto simp: ln_def)

lemma lines_of_Cons: "c \<noteq> NL \<Longrightarrow> lines_of (c # r) = (c # hd (lines_of r)) # tl (lines_of r)"
  by simp

lemma lines_of_app_Cons:
  "c \<noteq> NL \<Longrightarrow> lines_of (a @ c # r) =
     butlast (lines_of a) @ [last (lines_of a) @ c # hd (lines_of r)] @ tl (lines_of r)"
proof (induction a)
  case Nil
  then show ?case by simp
next
  case (Cons x a)
  note IH = Cons.IH[OF Cons.prems]
  show ?case
  proof (cases "x = NL")
    case True
    with IH show ?thesis by simp
  next
    case False
    obtain l ls where L: "lines_of a = l # ls"
      using lines_of_ne[of a] by (cases "lines_of a") auto
    show ?thesis
    proof (cases ls)
      case Nil
      with L False IH show ?thesis by simp
    next
      case (Cons m ms)
      with L False IH show ?thesis by simp
    qed
  qed
qed

lemma hashes_join:
  assumes "\<not> prefix ''###'' l" "c \<noteq> CHR ''#''"
  shows "\<not> prefix ''###'' (l @ c # x)"
proof (cases l)
  case Nil
  with assms show ?thesis by simp
next
  case l1: (Cons a l1)
  show ?thesis
  proof (cases l1)
    case Nil
    with l1 assms show ?thesis by simp
  next
    case l2: (Cons b l2)
    show ?thesis
    proof (cases l2)
      case Nil
      with l1 l2 assms show ?thesis by simp
    next
      case (Cons d l3)
      with l1 l2 assms show ?thesis by simp
    qed
  qed
qed

lemma clean_Nil [simp]: "clean []"
  by (simp add: clean_def)

lemma tl_clean_Nil [simp]: "tl_clean []"
  by (simp add: tl_clean_def)

lemma clean_imp_tl_clean: "clean a \<Longrightarrow> tl_clean a"
proof -
  assume c: "clean a"
  have "set (tl (lines_of a)) \<subseteq> set (lines_of a)"
    by (cases "lines_of a") auto
  with c show ?thesis unfolding clean_def tl_clean_def by blast
qed

lemma tl_clean_NL [simp]: "tl_clean (NL # r) = clean r"
  by (simp add: tl_clean_def clean_def)

lemma clean_NL [simp]: "clean (NL # r) = clean r"
  by (simp add: clean_def)

lemma tl_clean_Cons [simp]: "c \<noteq> NL \<Longrightarrow> tl_clean (c # r) = tl_clean r"
  by (simp add: tl_clean_def)

lemma clean_Cons [simp]:
  assumes "c \<noteq> NL" "c \<noteq> CHR ''#''"
  shows "clean (c # r) = tl_clean r"
proof -
  have "\<not> prefix ''###'' (c # hd (lines_of r))"
    using assms(2) by simp
  then show ?thesis
    using assms(1) by (simp add: tl_clean_def clean_def)
qed

lemma clean_app_Cons:
  assumes "clean a" "c \<noteq> NL" "c \<noteq> CHR ''#''"
  shows "clean (a @ c # r) = tl_clean r"
proof -
  have "last (lines_of a) \<in> set (lines_of a)" by simp
  then have "\<not> prefix ''###'' (last (lines_of a))"
    using assms(1) unfolding clean_def by blast
  then have 1: "\<not> prefix ''###'' (last (lines_of a) @ c # hd (lines_of r))"
    using assms(3) by (rule hashes_join)
  have 2: "\<forall>l \<in> set (butlast (lines_of a)). \<not> prefix ''###'' l"
    using assms(1) unfolding clean_def by (blast dest: in_set_butlastD)
  have "(\<forall>l \<in> set (butlast (lines_of a) @ [last (lines_of a) @ c # hd (lines_of r)] @ tl (lines_of r)).
           \<not> prefix ''###'' l) = (\<forall>l \<in> set (tl (lines_of r)). \<not> prefix ''###'' l)"
    using 1 2 by (simp only: set_append ball_Un) simp
  then show ?thesis
    unfolding clean_def tl_clean_def lines_of_app_Cons[OF assms(2)] .
qed

lemma tl_clean_app_Cons:
  assumes "clean a" "c \<noteq> NL" "c \<noteq> CHR ''#''"
  shows "tl_clean (a @ c # r) = tl_clean r"
proof
  assume "tl_clean r"
  then have "clean (a @ c # r)" by (simp only: clean_app_Cons[OF assms])
  then show "tl_clean (a @ c # r)" by (rule clean_imp_tl_clean)
next
  assume t: "tl_clean (a @ c # r)"
  have "set (tl (lines_of r)) \<subseteq> set (tl (lines_of (a @ c # r)))"
    unfolding lines_of_app_Cons[OF assms(2)]
    by (cases "butlast (lines_of a)") (simp, simp, blast)
  with t show "tl_clean r" unfolding tl_clean_def by blast
qed

lemma tl_clean_single_app: "NL \<notin> set a \<Longrightarrow> tl_clean (a @ r) = tl_clean r"
proof (induction a)
  case Nil
  then show ?case by simp
next
  case (Cons x a)
  then have "x \<noteq> NL" "NL \<notin> set a" by auto
  with Cons.IH show ?case by simp
qed

lemma clean_single_app:
  assumes "NL \<notin> set a" "a \<noteq> []" "hd a \<noteq> CHR ''#''"
  shows "clean (a @ r) = tl_clean r"
proof -
  from assms(2) obtain x xs where a: "a = x # xs" by (cases a) auto
  with assms have "x \<noteq> NL" "x \<noteq> CHR ''#''" "NL \<notin> set xs" by auto
  then show ?thesis by (simp add: a tl_clean_single_app)
qed

lemma prefix_hashes: "prefix ''### '' l \<Longrightarrow> prefix ''###'' l"
  by (auto simp: prefix_def)

lemma clean_no_heading: "clean a \<Longrightarrow> heading_lines a = []"
  unfolding clean_def heading_lines_def filter_empty_conv
  using prefix_hashes by blast

lemma heading_lines_Nil [simp]: "heading_lines [] = []"
  by (simp add: heading_lines_def)

lemma heading_lines_ln [simp]: "heading_lines (ln a @ b) = heading_lines a @ heading_lines b"
  by (simp add: heading_lines_def lines_of_ln)

lemma para_ln: "para a = ln a @ ln []"
  by (simp add: para_def ln_def)

lemma heading_lines_para [simp]: "heading_lines (para a @ b) = heading_lines a @ heading_lines b"
  by (simp add: para_ln)

lemma heading_lines_concat:
  assumes "\<And>x rest. x \<in> set xs \<Longrightarrow> heading_lines (f x @ rest) = H x @ heading_lines rest"
  shows "heading_lines (concat (map f xs) @ rest) = concat (map H xs) @ heading_lines rest"
  using assms by (induction xs) auto

lemma heading_lines_concat_none:
  assumes "\<And>x rest. x \<in> set xs \<Longrightarrow> heading_lines (f x @ rest) = heading_lines rest"
  shows "heading_lines (concat (map f xs) @ rest) = heading_lines rest"
  using assms by (induction xs) auto

lemma NL_not_hash [simp]: "NL \<noteq> CHR ''#''" "CHR ''#'' \<noteq> NL"
  by (simp_all add: NL_def)

lemma show_nat_hd: "hd (show_nat n) \<noteq> CHR ''#''"
  using show_nat_no_sep(4)[of n] show_nat_ne[of n] by (cases "show_nat n") auto

lemma clean_show_nat_app: "clean (show_nat n @ r) = tl_clean r"
  using show_nat_no_sep(3)[of n] show_nat_ne[of n] show_nat_hd[of n]
  by (intro clean_single_app) (simp_all add: NL_def)

lemma tl_clean_show_nat_app: "tl_clean (show_nat n @ r) = tl_clean r"
  using show_nat_no_sep(3)[of n] by (intro tl_clean_single_app) (simp add: NL_def)

lemma collapse_ws_no_space: "c \<in> set (collapse_ws b s) \<Longrightarrow> \<not> is_space c"
proof (induction s arbitrary: b)
  case Nil
  then show ?case by simp
next
  case (Cons x s)
  have "\<not> is_space (CHR ''-'')" by (simp add: is_space_def)
  with Cons show ?case by (auto split: if_splits)
qed

lemma is_space_NL: "is_space NL"
  by (simp add: is_space_def NL_def)

lemma section_anchor_single: "NL \<notin> set (section_anchor s)"
proof -
  have "NL \<notin> set (replace_ws (toLowerCase (s_title s)))"
    using collapse_ws_no_space[of NL False] is_space_NL by (auto simp: replace_ws_def)
  moreover have "NL \<notin> set (show_nat (s_number s))"
    using show_nat_no_sep(3) by (simp add: NL_def)
  ultimately show ?thesis by (simp add: section_anchor_def NL_def)
qed

lemma rule_anchor_single: "NL \<notin> set (rule_anchor r)"
proof -
  have "\<not> is_word NL" "NL \<noteq> CHR ''-''" by (simp_all add: is_word_def NL_def)
  then show ?thesis by (simp add: rule_anchor_def)
qed

lemmas line_simps =
  clean_app_Cons tl_clean_app_Cons tl_clean_single_app clean_show_nat_app tl_clean_show_nat_app
  clean_imp_tl_clean NL_def

lemma clean_hash_space [simp]: "clean (CHR ''#'' # CHR '' '' # r) = tl_clean r"
  by (simp add: clean_def tl_clean_def NL_def)

lemma clean_hash_hash_space [simp]: "clean (CHR ''#'' # CHR ''#'' # CHR '' '' # r) = tl_clean r"
  by (simp add: clean_def tl_clean_def NL_def)

lemma clean_single: "NL \<notin> set a \<Longrightarrow> \<not> prefix ''###'' a \<Longrightarrow> clean a"
  by (simp add: clean_def lines_of_single)

lemma hl_toc_rule:
  assumes "NL \<notin> set (id_text r)" "NL \<notin> set (r_title r)"
  shows "heading_lines (toc_rule r @ rest) = heading_lines rest"
proof -
  have "clean (''   - '' @ id_text r @ '' ['' @ r_title r @ ''](#'' @ rule_anchor r @ '')'')"
    using assms rule_anchor_single[of r] by (intro clean_single) (simp_all add: NL_def)
  then show ?thesis
    by (simp add: toc_rule_def clean_no_heading)
qed

lemma hl_toc_section:
  assumes "clean (s_title s)" "clean (s_impact s)"
    and "\<forall>r \<in> set (s_rules s). NL \<notin> set (id_text r) \<and> NL \<notin> set (r_title r)"
  shows "heading_lines (toc_section s @ rest) = heading_lines rest"
proof -
  have "clean (show_nat (s_number s) @ ''. ['' @ s_title s @ ''](#'' @ section_anchor s @ '') '' @ em_dash @
         '' **'' @ s_impact s @ ''**'')"
    using assms(1,2) section_anchor_single[of s]
    by (simp add: line_simps em_dash_def)
  moreover have "heading_lines (concat (map toc_rule (s_rules s)) @ rest) = heading_lines rest"
    using assms(3) by (intro heading_lines_concat_none hl_toc_rule) auto
  ultimately show ?thesis
    by (simp add: toc_section_def clean_no_heading)
qed

lemma hl_render_example:
  assumes "clean_example e"
  shows "heading_lines (render_example e @ rest) = heading_lines rest"
proof -
  from assms have c: "clean (e_label e)" "clean_opt (e_description e)" "clean (e_code e)"
    "clean_opt (e_language e)" "clean_opt (e_additionalText e)"
    by (simp_all add: clean_example_def)
  have 1: "truthy (e_description e) \<Longrightarrow> clean (''**'' @ e_label e @ '' ('' @ the (e_description e) @ ''):**'')"
    using c(1,2) by (cases "e_description e") (simp_all add: line_simps clean_opt_def)
  have 2: "clean (''**'' @ e_label e @ '':**'')"
    using c(1) by (simp add: line_simps)
  have 3: "clean (''```'' @ or_else (e_language e) ''typescript'')"
    using c(4) by (cases "e_language e") (simp_all add: line_simps clean_opt_def or_else_def)
  have 4: "clean ''```''"
    by (simp add: line_simps)
  have 5: "truthy (e_additionalText e) \<Longrightarrow> clean (the (e_additionalText e))"
    using c(5) by (cases "e_additionalText e") (simp_all add: clean_opt_def)
  show ?thesis
    using 1 2 3 4 5 c(3) by (simp add: render_example_def clean_no_heading)
qed

lemma tl_clean_links:
  assumes "list_all clean refs"
  shows "tl_clean (join_with '', '' (map link refs) @ r) = tl_clean r"
  using assms
proof (induction refs rule: induct_list012)
  case 1
  then show ?case by simp
next
  case (2 x)
  then show ?case by (simp add: link_def line_simps)
next
  case (3 x y zs)
  then have c: "clean x" and rest: "list_all clean (y # zs)" by simp_all
  from 3(2)[OF rest] have IH: "tl_clean (join_with '', '' (map link (y # zs)) @ r) = tl_clean r" .
  have "tl_clean (link x @ '', '' @ (join_with '', '' (map link (y # zs)) @ r)) =
        tl_clean (join_with '', '' (map link (y # zs)) @ r)"
    using c by (simp add: link_def line_simps)
  with IH show ?case by simp
qed

lemma heading_lines_heading:
  assumes "NL \<notin> set (id_text r)" "NL \<notin> set (r_title r)"
  shows "heading_lines (rule_heading r) = [rule_heading r]"
proof -
  have "NL \<notin> set (rule_heading r)"
    using assms by (simp add: rule_heading_def NL_def)
  then have "lines_of (rule_heading r) = [rule_heading r]" by (rule lines_of_single)
  then show ?thesis by (simp add: heading_lines_def rule_heading_def)
qed

lemma hl_render_rule:
  assumes "clean_rule r" "NL \<notin> set (id_text r)"
  shows "heading_lines (render_rule r @ rest) = rule_heading r # heading_lines rest"
proof -
  from assms(1) have c: "NL \<notin> set (r_title r)" "clean (r_impact r)" "clean_opt (r_impactDescription r)"
    "clean (r_explanation r)" "list_all clean_example (r_examples r)" "list_all clean (r_references r)"
    by (simp_all add: clean_rule_def)
  have 1: "clean (''**Impact: '' @ r_impact r @
           (if truthy (r_impactDescription r) then '' ('' @ the (r_impactDescription r) @ '')'' else []) @
           ''**'')"
    using c(2,3) by (cases "r_impactDescription r") (simp_all add: line_simps clean_opt_def)
  have 2: "heading_lines (concat (map render_example (r_examples r)) @ x) = heading_lines x" for x
    using c(5) by (intro heading_lines_concat_none hl_render_example) (simp add: list_all_iff)
  have 3: "clean (''Reference: '' @ join_with '', '' (map link (r_references r)))"
    using tl_clean_links[OF c(6), of "[]"] by (simp add: line_simps)
  show ?thesis
    using 1 3 c(4) heading_lines_heading[OF assms(2) c(1)]
    by (simp add: render_rule_def 2 clean_no_heading)
qed

lemma hl_render_section:
  assumes "clean (s_title s)" "clean (s_impact s)" "clean (s_introduction s)"
    and "\<forall>r \<in> set (s_rules s). clean_rule r \<and> NL \<notin> set (id_text r)"
  shows "heading_lines (render_section s @ rest) = map rule_heading (s_rules s) @ heading_lines rest"
proof -
  have 1: "clean (''## '' @ show_nat (s_number s) @ ''. '' @ s_title s)"
    using assms(1) by (simp add: line_simps)
  have 2: "clean (''**Impact: '' @ s_impact s @ ''**'')"
    using assms(2) by (simp add: line_simps)
  have 3: "heading_lines (concat (map render_rule (s_rules s)) @ x) =
           concat (map (\<lambda>r. [rule_heading r]) (s_rules s)) @ heading_lines x" for x
    using assms(4) by (intro heading_lines_concat) (simp add: hl_render_rule)
  have 4: "concat (map (\<lambda>r. [rule_heading r]) rs) = map rule_heading rs" for rs
    by (induction rs) simp_all
  have 5: "clean ''---''" by (simp add: line_simps)
  show ?thesis
    using 1 2 5 assms(3) by (simp add: render_section_def 3 4 clean_no_heading)
qed

lemma hl_render_reference:
  assumes "clean (snd p)"
  shows "heading_lines (render_reference p @ rest) = heading_lines rest"
proof -
  have "clean (show_nat (fst p + 1) @ ''. '' @ link (snd p))"
    using assms by (simp add: line_simps link_def)
  then show ?thesis by (simp add: render_reference_def clean_no_heading)
qed

lemma hl_generateMarkdown:
  assumes "clean_metadata md" "list_all clean_section sections"
  shows "heading_lines (generateMarkdown sections md) =
           concat (map (\<lambda>s. map rule_heading (s_rules s)) sections)"
proof -
  from assms(1) have m: "clean (md_version md)" "clean (md_organization md)" "clean (md_date md)"
      "clean (md_abstract md)" "clean (md_angularVersion md)"
      "case md_references md of None \<Rightarrow> True | Some refs \<Rightarrow> list_all clean refs"
    by (simp_all add: clean_metadata_def)
  have h: "clean (''# Angular Best Practices ('' @ md_angularVersion md @ '')'')"
      "clean (''**Version '' @ md_version md @ ''**  '')"
      "clean (md_organization md @ ''  '')"
      "clean ''> **Note:**  ''"
      "clean ''> This document is for AI agents and LLMs to follow when maintaining,  ''"
      "clean (''> generating, or refactoring Angular codebases. Optimized for '' @
           md_angularVersion md @ ''.'')"
      "clean ''---''" "clean ''## Abstract''" "clean ''## Table of Contents''" "clean ''## References''"
    using m(1,2,5) by (simp_all add: line_simps)
  have toc: "heading_lines (concat (map toc_section sections) @ x) = heading_lines x" for x
  proof (intro heading_lines_concat_none hl_toc_section)
    fix s assume "s \<in> set sections"
    with assms(2) have "clean_section s" by (simp add: list_all_iff)
    then show "clean (s_title s)" "clean (s_impact s)"
        "\<forall>r \<in> set (s_rules s). NL \<notin> set (id_text r) \<and> NL \<notin> set (r_title r)"
      by (auto simp: clean_section_def list_all_iff clean_rule_def)
  qed
  have body: "heading_lines (concat (map render_section sections) @ x) =
           concat (map (\<lambda>s. map rule_heading (s_rules s)) sections) @ heading_lines x" for x
  proof (intro heading_lines_concat hl_render_section)
    fix s assume "s \<in> set sections"
    with assms(2) have "clean_section s" by (simp add: list_all_iff)
    then show "clean (s_title s)" "clean (s_impact s)" "clean (s_introduction s)"
        "\<forall>r \<in> set (s_rules s). clean_rule r \<and> NL \<notin> set (id_text r)"
      by (auto simp: clean_section_def list_all_iff)
  qed
  have refs: "heading_lines (case md_references md of
        None \<Rightarrow> []
      | Some refs \<Rightarrow>
          (if refs \<noteq> [] then para ''## References'' @ concat (map render_reference (enumerate 0 refs))
           else [])) = []"
  proof (cases "md_references md")
    case None
    then show ?thesis by simp
  next
    case (Some refs)
    with m(6) have "list_all clean refs" by simp
    then have "\<forall>p \<in> set (enumerate 0 refs). clean (snd p)"
      by (auto simp: list_all_iff in_set_enumerate_eq)
    then have "heading_lines (concat (map render_reference (enumerate 0 refs)) @ []) = heading_lines []"
      by (intro heading_lines_concat_none hl_render_reference) auto
    then show ?thesis using h(10) by (simp add: Some clean_no_heading)
  qed
  show ?thesis
    unfolding generateMarkdown_def
    using h m(3,4) refs by (simp add: toc body clean_no_heading)
qed

lemma rule_id_no_sep: "CHR '' '' \<notin> set (rule_id n i)" "NL \<notin> set (rule_id n i)"
  using show_nat_no_sep(2,3) by (simp_all add: rule_id_def NL_def)

lemma split_heading_rule_heading:
  assumes "CHR '' '' \<notin> set (id_text r)"
  shows "split_heading (rule_heading r) = (id_text r, r_title r)"
  using takeWhile_sep[OF assms, of "r_title r"] dropWhile_sep[OF assms, of "r_title r"]
  by (simp add: split_heading_def rule_heading_def Let_def)

lemma set_assign_ids:
  "r' \<in> set (assign_ids n rs) \<Longrightarrow>
     \<exists>i r. r \<in> set rs \<and> r' = r\<lparr>r_id := Some (rule_id n i), r_subsection := Some (i + 1)\<rparr>"
proof -
  assume "r' \<in> set (assign_ids n rs)"
  then obtain i where i: "i < length rs"
      "r' = (rs ! i)\<lparr>r_id := Some (rule_id n i), r_subsection := Some (i + 1)\<rparr>"
    by (auto simp: assign_ids_def in_set_enumerate_eq)
  from i(1) have "rs ! i \<in> set rs" by simp
  with i(2) show ?thesis by blast
qed

lemma assemble_rule:
  assumes "s \<in> set (assemble cmp sm fs)" "r' \<in> set (s_rules s)"
  shows "\<exists>i r. (s_number s, r) \<in> set fs \<and>
           r' = r\<lparr>r_id := Some (rule_id (s_number s) i), r_subsection := Some (i + 1)\<rparr>"
proof -
  from assms(2) have "r' \<in> set (assign_ids (s_number s) (js_sort (by_title cmp) (rules_of (s_number s) fs)))"
    by (simp only: assemble_section(1)[OF assms(1)])
  from set_assign_ids[OF this] obtain i r where
    r: "r \<in> set (rules_of (s_number s) fs)"
       "r' = r\<lparr>r_id := Some (rule_id (s_number s) i), r_subsection := Some (i + 1)\<rparr>"
    by (auto simp: set_js_sort)
  from r(1) have "(s_number s, r) \<in> set fs" by (auto simp: rules_of_def)
  with r(2) show ?thesis by blast
qed

lemma clean_default_title: "clean (''Section '' @ show_nat n)"
  using tl_clean_show_nat_app[of n "[]"] by (simp add: line_simps)

lemma assemble_clean_section:
  assumes "\<forall>f \<in> set fs. clean_rule (snd f)" "\<forall>e \<in> set sm. clean_meta (snd e)"
    and "s \<in> set (assemble cmp sm fs)"
  shows "clean_section s"
    and "\<forall>r \<in> set (s_rules s). CHR '' '' \<notin> set (id_text r)"
proof -
  from assemble_section_meta[OF assms(3)] obtain r0 where r0: "(s_number s, r0) \<in> set fs"
      "s_title s = m_title (meta_or_default sm (s_number s) r0)"
      "s_impact s = m_impact (meta_or_default sm (s_number s) r0)"
      "s_introduction s = m_introduction (meta_or_default sm (s_number s) r0)"
    by blast
  from r0(1) assms(1) have cr0: "clean_rule r0" by force
  have "clean_meta (meta_or_default sm (s_number s) r0)"
  proof (cases "map_get sm (s_number s)")
    case None
    with cr0 clean_default_title[of "s_number s"] show ?thesis
      by (simp add: meta_or_default_def clean_meta_def clean_rule_def)
  next
    case (Some m)
    then have "(s_number s, m) \<in> set sm" by (simp add: map_get_def map_of_SomeD)
    with assms(2) have "clean_meta m" by force
    with Some show ?thesis by (simp add: meta_or_default_def)
  qed
  with r0 have t: "clean (s_title s)" "clean (s_impact s)" "clean (s_introduction s)"
    by (simp_all add: clean_meta_def)
  have rules: "clean_rule r' \<and> NL \<notin> set (id_text r') \<and> CHR '' '' \<notin> set (id_text r')"
    if "r' \<in> set (s_rules s)" for r'
  proof -
    from assemble_rule[OF assms(3) that] obtain i r where r: "(s_number s, r) \<in> set fs"
        "r' = r\<lparr>r_id := Some (rule_id (s_number s) i), r_subsection := Some (i + 1)\<rparr>"
      by blast
    from r(1) assms(1) have "clean_rule r" by force
    then show ?thesis
      using rule_id_no_sep[of "s_number s" i] by (simp add: r(2) clean_rule_def id_text_def)
  qed
  with t show "clean_section s"
    by (simp add: clean_section_def list_all_iff)
  from rules show "\<forall>r \<in> set (s_rules s). CHR '' '' \<notin> set (id_text r)" by blast
qed

lemma assemble_id_texts_distinct:
  "distinct (map id_text (concat (map s_rules (assemble cmp sm fs))))"
proof -
  let ?rs = "concat (map s_rules (assemble cmp sm fs))"
  have some: "\<forall>r \<in> set ?rs. r_id r \<noteq> None"
    using assemble_rule[of _ cmp sm fs] by fastforce
  have "inj_on id_text (set ?rs)"
  proof (rule inj_onI)
    fix a b assume ab: "a \<in> set ?rs" "b \<in> set ?rs" "id_text a = id_text b"
    from some ab(1) obtain x where x: "r_id a = Some x" by auto
    from some ab(2) obtain y where y: "r_id b = Some y" by auto
    from ab(3) x y have "r_id a = r_id b" by (simp add: id_text_def)
    moreover have "inj_on r_id (set ?rs)"
      using assemble_ids_distinct[of cmp sm fs] by (simp add: distinct_map)
    ultimately show "a = b" using ab(1,2) by (auto dest: inj_onD)
  qed
  moreover have "distinct ?rs"
    using assemble_ids_distinct[of cmp sm fs] by (simp add: distinct_map)
  ultimately show ?thesis by (simp add: distinct_map)
qed

text \<open>
  Claim C7, amended. The renderer copies every text as it is, so a line of an explanation (or of
  any other text) that begins with \<^verbatim>\<open>### \<close> is read back as a rule heading, and the claim fails
  as stated. For a corpus whose rule titles are
  single lines and whose other texts are clean, and clean document metadata, reading the rule
  headings of the rendered document back gives exactly the (id, title) pairs of the assembled
  sections, in order, and the ids read back are pairwise distinct.
\<close>

theorem rendered_headings_round_trip:
  assumes "\<forall>f \<in> set fs. clean_rule (snd f)" and "\<forall>e \<in> set sm. clean_meta (snd e)"
    and "clean_metadata md"
  shows "regroup_headings (generateMarkdown (assemble cmp sm fs) md) = id_title_pairs (assemble cmp sm fs) \<and>
         distinct (map fst (regroup_headings (generateMarkdown (assemble cmp sm fs) md)))"
proof -
  let ?secs = "assemble cmp sm fs"
  have cs: "list_all clean_section ?secs"
    using assemble_clean_section(1)[OF assms(1,2)] by (simp add: list_all_iff)
  have "regroup_headings (generateMarkdown ?secs md) =
          map split_heading (concat (map (\<lambda>s. map rule_heading (s_rules s)) ?secs))"
    by (simp only: regroup_headings_def hl_generateMarkdown[OF assms(3) cs])
  also have "\<dots> = concat (map (\<lambda>s. map (\<lambda>r. split_heading (rule_heading r)) (s_rules s)) ?secs)"
    by (simp add: map_concat o_def)
  also have "\<dots> = concat (map (\<lambda>s. map (\<lambda>r. (id_text r, r_title r)) (s_rules s)) ?secs)"
  proof (rule arg_cong[where f = concat], rule map_cong[OF refl], rule map_cong[OF refl])
    fix s r assume "s \<in> set ?secs" "r \<in> set (s_rules s)"
    with assemble_clean_section(2)[OF assms(1,2)] have "CHR '' '' \<notin> set (id_text r)" by blast
    then show "split_heading (rule_heading r) = (id_text r, r_title r)"
      by (rule split_heading_rule_heading)
  qed
  finally have eq: "regroup_headings (generateMarkdown ?secs md) = id_title_pairs ?secs"
    by (simp add: id_title_pairs_def)
  have "map fst (id_title_pairs ?secs) = map id_text (concat (map s_rules ?secs))"
    by (simp add: id_title_pairs_def map_concat o_def)
  with assemble_id_texts_distinct[of cmp sm fs] eq show ?thesis by simp
qed

lemma heading_lines_single:
  "NL \<notin> set x \<Longrightarrow> heading_lines x = (if prefix ''### '' x then [x] else [])"
  by (simp add: heading_lines_def lines_of_single)

lemma heading_lines_ln_end [simp]: "heading_lines (ln a) = heading_lines a"
  using heading_lines_ln[of a "[]"] by simp

lemma heading_lines_para_end [simp]: "heading_lines (para a) = heading_lines a"
  using heading_lines_para[of a "[]"] by simp

lemma show_nat_1: "show_nat 1 = ''1''" "show_nat (Suc 0) = ''1''"
  by (simp_all add: show_nat.simps digit_def)

lemma assemble_heading_in_explanation:
  "assemble base_compare [] [(1, heading_in_explanation)] =
     [\<lparr>s_number = 1, s_title = ''Section 1'', s_impact = ''HIGH'', s_introduction = [],
       s_rules = [heading_in_explanation\<lparr>r_id := Some ''1.1'', r_subsection := Some 1\<rparr>]\<rparr>]"
  by (simp add: assemble_def group_rules_def group_step_def map_has_def Let_def push_rule_def
      map_values_def sort_and_assign_def js_sort_def assign_ids_def rule_id_def show_nat_1
      meta_or_default_def map_get_def heading_in_explanation_def sample_rule_def)

lemma headings_heading_in_explanation:
  "heading_lines (generateMarkdown (assemble base_compare [] [(1, heading_in_explanation)]) sample_metadata) =
     [''### 1.1 Use X'', ''### 9.9 Fake'']"
  unfolding assemble_heading_in_explanation
  by (simp add: generateMarkdown_def sample_metadata_def toc_section_def toc_rule_def render_section_def
      render_rule_def rule_heading_def id_text_def heading_in_explanation_def sample_rule_def
      heading_lines_single section_anchor_single[unfolded NL_def] rule_anchor_single[unfolded NL_def]
      show_nat_1 NL_def em_dash_def)

text \<open>
  A rule whose explanation is the line \<^verbatim>\<open>### 9.9 Fake\<close>: the document has two heading lines, and
  reading them back gives a pair that no rule has.
\<close>

theorem rendered_headings_counterexample:
  "regroup_headings (generateMarkdown (assemble base_compare [] [(1, heading_in_explanation)]) sample_metadata) \<noteq>
   id_title_pairs (assemble base_compare [] [(1, heading_in_explanation)])"
proof -
  have "regroup_headings (generateMarkdown (assemble base_compare [] [(1, heading_in_explanation)])
          sample_metadata) = [(''1.1'', ''Use X''), (''9.9'', ''Fake'')]"
    by (simp only: regroup_headings_def headings_heading_in_explanation) (simp add: split_heading_def)
  moreover have "id_title_pairs (assemble base_compare [] [(1, heading_in_explanation)]) =
          [(''1.1'', ''Use X'')]"
    by (simp only: assemble_heading_in_explanation)
      (simp add: id_title_pairs_def id_text_def heading_in_explanation_def sample_rule_def)
  ultimately show ?thesis by simp
qed

lemma clean_labelled_rule: "clean_rule labelled_rule"
  by (simp add: clean_rule_def labelled_rule_def sample_rule_def sample_example_def clean_example_def
      clean_opt_def line_simps)

lemma clean_sample_metadata: "clean_metadata sample_metadata"
  by (simp add: clean_metadata_def sample_metadata_def line_simps)

theorem rendered_headings_round_trip_witness:
  "clean_rule labelled_rule \<and> clean_metadata sample_metadata \<and>
   regroup_headings (generateMarkdown (assemble base_compare [] [(1, labelled_rule)]) sample_metadata) =
     [(''1.1'', ''Use X'')]"
proof -
  have a: "assemble base_compare [] [(1, labelled_rule)] =
     [\<lparr>s_number = 1, s_title = ''Section 1'', s_impact = ''HIGH'', s_introduction = [],
       s_rules = [labelled_rule\<lparr>r_id := Some ''1.1'', r_subsection := Some 1\<rparr>]\<rparr>]"
    by (simp add: assemble_def group_rules_def group_step_def map_has_def Let_def push_rule_def
      map_values_def sort_and_assign_def js_sort_def assign_ids_def rule_id_def show_nat_1
      meta_or_default_def map_get_def labelled_rule_def sample_rule_def)
  have "id_title_pairs (assemble base_compare [] [(1, labelled_rule)]) = [(''1.1'', ''Use X'')]"
    unfolding a by (simp add: id_title_pairs_def id_text_def labelled_rule_def sample_rule_def)
  with rendered_headings_round_trip[of "[(1, labelled_rule)]" "[]" sample_metadata base_compare]
    clean_labelled_rule clean_sample_metadata
  show ?thesis by simp
qed

end
